theory Spec2Isabelle
  imports Complex_Main "HOL-Library.Sublist"
begin

section \<open>Python string primitives used by the name codec\<close>

text \<open>
  The codec of \<^verbatim>\<open>feature_dynamics_utils.py\<close> is written with four methods of Python's
  \<^verbatim>\<open>str\<close>: \<^verbatim>\<open>split(sep)\<close>, \<^verbatim>\<open>replace(old, new)\<close>, \<^verbatim>\<open>replace(old, new, 1)\<close> and the
  substring test \<^verbatim>\<open>old in s\<close>. All of them scan from the left and never look at overlapping
  occurrences. Strings are \<^typ>\<open>string\<close>; every separator the source passes is a non-empty
  literal, and the functions below are meant for non-empty \<open>sep\<close> and \<open>old\<close> only.
\<close>

fun split_str :: "string \<Rightarrow> string \<Rightarrow> string list" where
  "split_str sep [] = [[]]"
| "split_str sep (c # cs) =
     (if prefix sep (c # cs) then [] # split_str sep (drop (length sep - 1) cs)
      else (case split_str sep cs of [] \<Rightarrow> [[c]] | p # ps \<Rightarrow> (c # p) # ps))"

fun replace_str :: "string \<Rightarrow> string \<Rightarrow> string \<Rightarrow> string" where
  "replace_str old new [] = []"
| "replace_str old new (c # cs) =
     (if prefix old (c # cs) then new @ replace_str old new (drop (length old - 1) cs)
      else c # replace_str old new cs)"

fun replace_first :: "string \<Rightarrow> string \<Rightarrow> string \<Rightarrow> string" where
  "replace_first old new [] = []"
| "replace_first old new (c # cs) =
     (if prefix old (c # cs) then new @ drop (length old - 1) cs
      else c # replace_first old new cs)"

fun contains_str :: "string \<Rightarrow> string \<Rightarrow> bool" where
  "contains_str sub [] = (sub = [])"
| "contains_str sub (c # cs) = (prefix sub (c # cs) \<or> contains_str sub cs)"

fun join_str :: "string \<Rightarrow> string list \<Rightarrow> string" where
  "join_str sep [] = []"
| "join_str sep [p] = p"
| "join_str sep (p # q # ps) = p @ sep @ join_str sep (q # ps)"

subsection \<open>Integers as text\<close>

text \<open>
  \<^verbatim>\<open>f"{window_length}"\<close> prints an \<^verbatim>\<open>int\<close> in decimal, with a leading minus sign when
  negative. \<^verbatim>\<open>int(s)\<close> accepts surrounding whitespace, one optional sign and decimal digits
  that may be grouped by single underscores; anything else raises \<^verbatim>\<open>ValueError\<close>, which
  is \<open>None\<close> here. A character is a code point from 0 to 255; strings with code points
  above 255 are not modelled. The whitespace \<^verbatim>\<open>int\<close> strips is then tab, line feed,
  vertical tab, form feed, carriage return and space, and the two spaces beyond ASCII,
  \<^verbatim>\<open>\x85\<close> and \<^verbatim>\<open>\xa0\<close>; the separators \<^verbatim>\<open>\x1c\<close> to \<^verbatim>\<open>\x1f\<close> are not stripped. The
  only decimal digits in this range are \<^verbatim>\<open>0\<close> to \<^verbatim>\<open>9\<close>. The interpreter's limit on the
  number of digits it converts between \<^verbatim>\<open>int\<close> and \<^verbatim>\<open>str\<close> is left out.
\<close>

definition digit_char :: "nat \<Rightarrow> char" where
  "digit_char d = char_of (48 + d)"

definition is_digit :: "char \<Rightarrow> bool" where
  "is_digit c = (48 \<le> (of_char c :: nat) \<and> (of_char c :: nat) \<le> 57)"

definition digit_val :: "char \<Rightarrow> nat" where
  "digit_val c = (of_char c :: nat) - 48"

fun str_nat :: "nat \<Rightarrow> string" where
  "str_nat n = (if n < 10 then [digit_char n] else str_nat (n div 10) @ [digit_char (n mod 10)])"

declare str_nat.simps [simp del]

definition str_int :: "int \<Rightarrow> string" where
  "str_int i = (if i < 0 then CHR ''-'' # str_nat (nat (- i)) else str_nat (nat i))"

definition is_space :: "char \<Rightarrow> bool" where
  "is_space c = (c \<in> set [CHR 0x09, CHR 0x0A, CHR 0x0B, CHR 0x0C, CHR 0x0D, CHR '' '',
                           CHR 0x85, CHR 0xA0])"

definition strip :: "string \<Rightarrow> string" where
  "strip s = rev (dropWhile is_space (rev (dropWhile is_space s)))"

fun digits_val :: "nat \<Rightarrow> string \<Rightarrow> nat option" where
  "digits_val acc [] = Some acc"
| "digits_val acc (c # cs) =
     (if is_digit c then digits_val (10 * acc + digit_val c) cs
      else if c = CHR ''_'' \<and> cs \<noteq> [] \<and> is_digit (hd cs) then digits_val acc cs
      else None)"

definition py_nat :: "string \<Rightarrow> nat option" where
  "py_nat s = (case s of [] \<Rightarrow> None | c # cs \<Rightarrow> if is_digit c then digits_val 0 s else None)"

definition py_int :: "string \<Rightarrow> int option" where
  "py_int s =
     (case strip s of
        [] \<Rightarrow> None
      | c # cs \<Rightarrow>
          if c = CHR ''-'' then map_option (\<lambda>n. - int n) (py_nat cs)
          else if c = CHR ''+'' then map_option int (py_nat cs)
          else map_option int (py_nat (c # cs)))"

section \<open>The name codec\<close>

datatype value_error =
    WindowLengthNotFound
  | InvalidIntLiteral string
  | OnlyOnePart string
  | UnknownFeatureName string
  | InvalidSplitSize

datatype error = ValueError value_error | TypeError | IndexError

text \<open>\<^verbatim>\<open>clean_feature_timeseries_name\<close>: no branch of the source raises.\<close>

definition clean_feature_timeseries_name :: "string \<Rightarrow> int \<Rightarrow> string" where
  "clean_feature_timeseries_name feature_timeseries_name window_length =
     replace_str ''__'' ''|'' (replace_first ''__'' ''||'' feature_timeseries_name)
       @ ''@window_'' @ str_int window_length"

subsection \<open>Feature dictionaries\<close>

text \<open>
  A feature dictionary maps \<open>window_length \<rightarrow> ts_kind \<rightarrow> calculator name \<rightarrow> parameter list\<close>,
  where the innermost value is either a list of configurations or Python's \<^verbatim>\<open>None\<close>
  (\<open>Some None\<close> below; \<open>None\<close> alone is an absent key).
\<close>

type_synonym 'c calculator_dict = "string \<rightharpoonup> 'c list option"
type_synonym 'c kind_dict = "string \<rightharpoonup> 'c calculator_dict"
type_synonym 'c feature_dictionary = "int \<rightharpoonup> 'c kind_dict"

definition lookup_entry ::
  "'c feature_dictionary \<Rightarrow> int \<Rightarrow> string \<Rightarrow> string \<Rightarrow> 'c list option option" where
  "lookup_entry d w k f =
     (case d w of None \<Rightarrow> None
      | Some kinds \<Rightarrow> (case kinds k of None \<Rightarrow> None | Some calcs \<Rightarrow> calcs f))"

text \<open>
  \<^verbatim>\<open>update_feature_dictionary\<close>. Two things it calls are defined in other modules and are
  parameters here: \<open>has_calculator name\<close> stands for
  \<^verbatim>\<open>hasattr(feature_calculators, name)\<close>, and \<open>get_config_from_string\<close> for the function of
  that name in \<^verbatim>\<open>tsfresh.utilities.string_manipulation\<close>, which may raise (\<open>Inl\<close>) or return
  a configuration; \<open>Inr None\<close> is a result that Python's \<^verbatim>\<open>if config:\<close> takes as false.

  The source mutates the dictionary it is given. When it raises, the entries for the
  window length and the kind have already been created, so the error comes with the
  dictionary as the caller now sees it. \<^verbatim>\<open>config not in None\<close> is a \<^verbatim>\<open>TypeError\<close>.
  \<open>append_new\<close> is the guarded \<^verbatim>\<open>append\<close> of the source.
\<close>

definition append_new :: "'a list \<Rightarrow> 'a \<Rightarrow> 'a list" where
  "append_new configs config = (if config \<in> set configs then configs else configs @ [config])"

definition update_feature_dictionary ::
  "(string \<Rightarrow> bool) \<Rightarrow> (string list \<Rightarrow> error + 'c option) \<Rightarrow>
   'c feature_dictionary \<Rightarrow> int \<Rightarrow> string list \<Rightarrow>
   (error \<times> 'c feature_dictionary) + 'c feature_dictionary" where
  "update_feature_dictionary has_calculator get_config_from_string feature_dictionary
       window_length feature_parts =
     (case feature_parts of
        [] \<Rightarrow> Inl (IndexError, feature_dictionary)
      | [ts_kind] \<Rightarrow> Inl (IndexError, feature_dictionary)
      | ts_kind # feature_name # _ \<Rightarrow>
          (let kinds = (case feature_dictionary window_length of
                          None \<Rightarrow> Map.empty | Some ks \<Rightarrow> ks);
               calcs = (case kinds ts_kind of None \<Rightarrow> Map.empty | Some cs \<Rightarrow> cs);
               put = (\<lambda>calcs'. feature_dictionary(window_length \<mapsto> kinds(ts_kind \<mapsto> calcs')))
           in if \<not> has_calculator feature_name
              then Inl (ValueError (UnknownFeatureName feature_name), put calcs)
              else (case get_config_from_string feature_parts of
                      Inl e \<Rightarrow> Inl (e, put calcs)
                    | Inr None \<Rightarrow> Inr (put (calcs(feature_name \<mapsto> None)))
                    | Inr (Some config) \<Rightarrow>
                        (case calcs feature_name of
                           None \<Rightarrow> Inr (put (calcs(feature_name \<mapsto> Some [config])))
                         | Some None \<Rightarrow> Inl (TypeError, put calcs)
                         | Some (Some configs) \<Rightarrow>
                             Inr (put (calcs(feature_name \<mapsto>
                               Some (append_new configs config))))))))"

subsection \<open>Decoding\<close>

record fts_information =
  window_length :: int
  fts_parts :: "string list"

text \<open>
  \<^verbatim>\<open>parse_feature_timeseries_parts\<close>. Its first statement computes the tokens of the part
  before the first \<^verbatim>\<open>__\<close>; \<^verbatim>\<open>split\<close> never returns an empty list, so the reads
  \<^verbatim>\<open>[0]\<close> and \<^verbatim>\<open>[-1]\<close> of the source cannot fail and are \<^const>\<open>hd\<close> and \<^const>\<open>last\<close> here.
\<close>

definition fts_tokens :: "string \<Rightarrow> string list" where
  "fts_tokens full_feature_name =
     split_str ''__''
       (replace_str ''@'' ''__''
         (replace_str ''|'' ''__''
           (replace_str ''||'' ''__'' (hd (split_str ''__'' full_feature_name)))))"

definition parse_feature_timeseries_parts :: "string \<Rightarrow> error + fts_information" where
  "parse_feature_timeseries_parts full_feature_name =
     (let parts = fts_tokens full_feature_name
      in if \<not> contains_str ''window_'' (last parts) then Inl (ValueError WindowLengthNotFound)
         else (case py_int (replace_str ''window_'' [] (last parts)) of
                 None \<Rightarrow> Inl (ValueError (InvalidIntLiteral (replace_str ''window_'' [] (last parts))))
               | Some n \<Rightarrow>
                   if length (butlast parts) = 1 then Inl (ValueError (OnlyOnePart full_feature_name))
                   else Inr \<lparr>window_length = n, fts_parts = butlast parts\<rparr>))"

text \<open>\<^verbatim>\<open>parse_feature_dynamics_parts\<close>.\<close>

definition parse_feature_dynamics_parts :: "string \<Rightarrow> error + string list" where
  "parse_feature_dynamics_parts full_feature_name =
     (let fd_parts = split_str ''__'' full_feature_name
      in if length fd_parts = 1 then Inl (ValueError (OnlyOnePart full_feature_name))
         else Inr fd_parts)"

text \<open>A sequence of calls on one dictionary, stopping at the first call that raises.\<close>

fun update_calls ::
  "(string \<Rightarrow> bool) \<Rightarrow> (string list \<Rightarrow> error + 'c option) \<Rightarrow>
   (int \<times> string list) list \<Rightarrow> 'c feature_dictionary \<Rightarrow>
   (error \<times> 'c feature_dictionary) + 'c feature_dictionary" where
  "update_calls hc gc [] d = Inr d"
| "update_calls hc gc ((w, parts) # calls) d =
     (case update_feature_dictionary hc gc d w parts of
        Inl e \<Rightarrow> Inl e
      | Inr d' \<Rightarrow> update_calls hc gc calls d')"

text \<open>
  \<^verbatim>\<open>derive_features_dictionaries\<close>: the loop over the names, on the pair
  \<open>(fts_mapping, fd_mapping)\<close>. The names are strings by type, so the \<^verbatim>\<open>isinstance\<close> check
  of the source always passes. Both dictionaries are local: an exception leaves the
  caller with the error alone.
\<close>

fun derive_loop ::
  "(string \<Rightarrow> bool) \<Rightarrow> (string list \<Rightarrow> error + 'c option) \<Rightarrow> string list \<Rightarrow>
   'c feature_dictionary \<times> 'c feature_dictionary \<Rightarrow>
   error + ('c feature_dictionary \<times> 'c feature_dictionary)" where
  "derive_loop hc gc [] maps = Inr maps"
| "derive_loop hc gc (full_feature_name # names) (fts_mapping, fd_mapping) =
     (case parse_feature_timeseries_parts full_feature_name of
        Inl e \<Rightarrow> Inl e
      | Inr fts_information \<Rightarrow>
          (case update_feature_dictionary hc gc fts_mapping
                  (window_length fts_information) (fts_parts fts_information) of
             Inl (e, _) \<Rightarrow> Inl e
           | Inr fts_mapping' \<Rightarrow>
               (case parse_feature_dynamics_parts full_feature_name of
                  Inl e \<Rightarrow> Inl e
                | Inr fd_parts \<Rightarrow>
                    (case update_feature_dictionary hc gc fd_mapping
                            (window_length fts_information) fd_parts of
                       Inl (e, _) \<Rightarrow> Inl e
                     | Inr fd_mapping' \<Rightarrow>
                         derive_loop hc gc names (fts_mapping', fd_mapping')))))"

definition derive_features_dictionaries ::
  "(string \<Rightarrow> bool) \<Rightarrow> (string list \<Rightarrow> error + 'c option) \<Rightarrow> string list \<Rightarrow>
   error + ('c feature_dictionary \<times> 'c feature_dictionary)" where
  "derive_features_dictionaries hc gc feature_names =
     derive_loop hc gc feature_names (Map.empty, Map.empty)"

text \<open>
  Stand-ins for the two parameters, used where a concrete run is evaluated: a catalog of
  three calculator names, and a configuration reader that returns the parameter segments
  themselves, or nothing when there are none.
\<close>

definition small_catalog :: "string \<Rightarrow> bool" where
  "small_catalog name = (name \<in> set [''mean'', ''median'', ''quantile''])"

definition raw_config :: "string list \<Rightarrow> error + string list option" where
  "raw_config parts = Inr (if drop 2 parts = [] then None else Some (drop 2 parts))"

text \<open>
  The configurations that a sequence of calls hands to one calculator entry: those of the
  calls whose window length, kind and calculator name are the entry's, in call order.
\<close>

definition addressed :: "int \<Rightarrow> string \<Rightarrow> string \<Rightarrow> int \<times> string list \<Rightarrow> bool" where
  "addressed w k f call = (fst call = w \<and> take 2 (snd call) = [k, f])"

definition configs_for ::
  "(string list \<Rightarrow> error + 'c option) \<Rightarrow> int \<Rightarrow> string \<Rightarrow> string \<Rightarrow>
   (int \<times> string list) list \<Rightarrow> 'c list" where
  "configs_for gc w k f calls =
     concat (map (\<lambda>call. case gc (snd call) of Inr (Some c) \<Rightarrow> [c] | _ \<Rightarrow> [])
                 (filter (addressed w k f) calls))"

definition entry_after ::
  "(string \<Rightarrow> bool) \<Rightarrow> (string list \<Rightarrow> error + 'c option) \<Rightarrow>
   (int \<times> string list) list \<Rightarrow> int \<Rightarrow> string \<Rightarrow> string \<Rightarrow> 'c list option option" where
  "entry_after hc gc calls w k f =
     (case update_calls hc gc calls Map.empty of
        Inl _ \<Rightarrow> None
      | Inr d \<Rightarrow> lookup_entry d w k f)"

section \<open>Stage-1 completeness filtering\<close>

text \<open>
  The rows that the first extraction returns with \<^verbatim>\<open>pivot=False\<close>: the composite id
  \<open>(original id, window index)\<close>, the feature name, and the value, \<open>None\<close> when pandas'
  \<^verbatim>\<open>isnull\<close> holds of it. Values are kept abstract; the numeric coercion that follows the
  filter does not touch which rows exist.
\<close>

record ('i, 'v) stage1_row =
  row_id :: "'i \<times> nat"
  row_kind :: string
  row_value :: "'v option"

record ('i, 'v) fts_row =
  column_id :: 'i
  column_sort :: nat
  column_kind :: string
  column_value :: "'v option"

text \<open>pandas' \<^verbatim>\<open>unique\<close>: the distinct values in order of first appearance.\<close>

definition unique_first :: "'a list \<Rightarrow> 'a list" where
  "unique_first xs = rev (remdups (rev xs))"

definition target_list :: "('i, 'v) stage1_row list \<Rightarrow> string list" where
  "target_list rows = unique_first (map row_kind (filter (\<lambda>r. row_value r = None) rows))"

text \<open>
  The branch for a pandas frame: the rows whose name is in the target list are dropped, then
  every remaining row is renamed and its composite id is split into id and sort.
\<close>

definition drop_incomplete :: "('i, 'v) stage1_row list \<Rightarrow> ('i, 'v) stage1_row list" where
  "drop_incomplete rows = filter (\<lambda>r. row_kind r \<notin> set (target_list rows)) rows"

definition flatten_row :: "int \<Rightarrow> ('i, 'v) stage1_row \<Rightarrow> ('i, 'v) fts_row" where
  "flatten_row window_len r =
     \<lparr>column_id = fst (row_id r), column_sort = snd (row_id r),
      column_kind = clean_feature_timeseries_name (row_kind r) window_len,
      column_value = row_value r\<rparr>"

definition stage1_pandas :: "int \<Rightarrow> ('i, 'v) stage1_row list \<Rightarrow> ('i, 'v) fts_row list" where
  "stage1_pandas window_len rows = map (flatten_row window_len) (drop_incomplete rows)"

text \<open>The branch for a dask frame: rename and split the id, then filter on the new names.\<close>

definition stage1_dask :: "int \<Rightarrow> ('i, 'v) stage1_row list \<Rightarrow> ('i, 'v) fts_row list" where
  "stage1_dask window_len rows =
     (let renamed = map (flatten_row window_len) rows;
          targets = unique_first (map column_kind (filter (\<lambda>x. column_value x = None) renamed))
      in filter (\<lambda>x. column_kind x \<notin> set targets) renamed)"

text \<open>Stage-1 output for two ids and two windows, one value missing.\<close>

definition example_rows :: "(nat, int) stage1_row list" where
  "example_rows =
     [\<lparr>row_id = (1, 0), row_kind = ''a__mean'', row_value = Some 3\<rparr>,
      \<lparr>row_id = (1, 0), row_kind = ''a__skew'', row_value = Some 2\<rparr>,
      \<lparr>row_id = (1, 1), row_kind = ''a__mean'', row_value = Some 4\<rparr>,
      \<lparr>row_id = (1, 1), row_kind = ''a__skew'', row_value = None\<rparr>,
      \<lparr>row_id = (2, 0), row_kind = ''a__mean'', row_value = Some 5\<rparr>,
      \<lparr>row_id = (2, 0), row_kind = ''a__skew'', row_value = Some 7\<rparr>,
      \<lparr>row_id = (2, 1), row_kind = ''a__mean'', row_value = Some 6\<rparr>,
      \<lparr>row_id = (2, 1), row_kind = ''a__skew'', row_value = Some 8\<rparr>]"

text \<open>
  Stage-1 output for the two kinds \<^verbatim>\<open>a__b__c\<close> and \<^verbatim>\<open>a__b|c\<close> under one calculator: the
  first name has its value missing, the second has a value in both windows.
\<close>

definition colliding_rows :: "(nat, int) stage1_row list" where
  "colliding_rows =
     [\<lparr>row_id = (1, 0), row_kind = ''a__b__c__skewness'', row_value = None\<rparr>,
      \<lparr>row_id = (1, 0), row_kind = ''a__b|c__skewness'', row_value = Some 1\<rparr>,
      \<lparr>row_id = (1, 1), row_kind = ''a__b|c__skewness'', row_value = Some 2\<rparr>]"

section \<open>The windowed view\<close>

text \<open>
  A time-series dataset as the list of its series, one per id and kind. A split size as
  Python hands it over: a number, or NaN.
\<close>

type_synonym ('i, 'v) ts_data = "(('i \<times> string) \<times> 'v list) list"

datatype split_size_value = Number rat | NaN

record ('i, 'v) split_ts_data =
  root_ts_data :: "('i, 'v) ts_data"
  split_size :: nat

definition shortest_series :: "('i, 'v) ts_data \<Rightarrow> nat option" where
  "shortest_series ts =
     (case map (\<lambda>s. length (snd s)) ts of [] \<Rightarrow> None | l # ls \<Rightarrow> Some (fold min ls l))"

text \<open>
  Modelled from the spec: the constructor of \<^verbatim>\<open>IterableSplitTsData\<close>, whose module
  \<^verbatim>\<open>feature_dynamics_data.py\<close> is not among the sources modelled here. The spec (4.1): "Validation at
  construction: reject non-integer, non-positive, or NaN-valued split sizes, and reject a
  split size exceeding the length of the shortest series present -- all with a value-domain
  error"; the view keeps a reference to the source dataset and the split size.
\<close>

definition IterableSplitTsData ::
  "('i, 'v) ts_data \<Rightarrow> split_size_value \<Rightarrow> error + ('i, 'v) split_ts_data" where
  "IterableSplitTsData ts v =
     (case v of
        NaN \<Rightarrow> Inl (ValueError InvalidSplitSize)
      | Number q \<Rightarrow>
          if of_int \<lfloor>q\<rfloor> \<noteq> q then Inl (ValueError InvalidSplitSize)
          else if q \<le> 0 then Inl (ValueError InvalidSplitSize)
          else (case shortest_series ts of
                  None \<Rightarrow> Inr \<lparr>root_ts_data = ts, split_size = nat \<lfloor>q\<rfloor>\<rparr>
                | Some l \<Rightarrow>
                    if of_nat l < q then Inl (ValueError InvalidSplitSize)
                    else Inr \<lparr>root_ts_data = ts, split_size = nat \<lfloor>q\<rfloor>\<rparr>))"

text \<open>A dataset of two series, of lengths 3 and 4.\<close>

definition example_ts :: "(nat, int) ts_data" where
  "example_ts = [((1, ''a''), [1, 2, 3]), ((1, ''b''), [4, 5, 6, 7])]"

section \<open>Well-formed names\<close>

text \<open>
  \<open>no_sep p\<close>: the text \<open>p\<close> holds no \<^verbatim>\<open>__\<close> and does not end in an underscore, so that a
  separator written after it is found exactly where it was written. \<open>well_split\<close> is what
  every result of \<^verbatim>\<open>split("__")\<close> satisfies: no part holds a separator, and only the last
  part may end in an underscore.
\<close>

definition no_sep :: "string \<Rightarrow> bool" where
  "no_sep p = (\<not> contains_str ''__'' (p @ ''_''))"

fun well_split :: "string list \<Rightarrow> bool" where
  "well_split [] = False"
| "well_split [p] = (\<not> contains_str ''__'' p)"
| "well_split (p # q # ps) = (no_sep p \<and> well_split (q # ps))"

text \<open>
  A canonical stage-1 name \<^verbatim>\<open><kind>__<calc_name>__<param>...\<close>: at least two segments, each
  of them non-empty and free of the characters \<^verbatim>\<open>|\<close> and \<^verbatim>\<open>@\<close> that the codec writes, and no
  underscore at the very end.
\<close>

definition segment_ok :: "string \<Rightarrow> bool" where
  "segment_ok p = (p \<noteq> [] \<and> CHR ''|'' \<notin> set p \<and> CHR ''@'' \<notin> set p \<and> no_sep p)"

definition canonical_name :: "string \<Rightarrow> bool" where
  "canonical_name name =
     (2 \<le> length (split_str ''__'' name)
      \<and> list_all (\<lambda>p. p \<noteq> [] \<and> CHR ''|'' \<notin> set p \<and> CHR ''@'' \<notin> set p) (split_str ''__'' name)
      \<and> name \<noteq> [] \<and> last name \<noteq> CHR ''_'')"

section \<open>Facts about the string primitives\<close>

lemma of_char_digit_char: "d < 10 \<Longrightarrow> (of_char (digit_char d) :: nat) = 48 + d"
  by (simp add: digit_char_def)

lemma is_digit_digit_char: "d < 10 \<Longrightarrow> is_digit (digit_char d)"
  by (simp add: is_digit_def of_char_digit_char)

lemma digit_val_digit_char: "d < 10 \<Longrightarrow> digit_val (digit_char d) = d"
  by (simp add: digit_val_def of_char_digit_char)


lemma is_digit_not_special:
  assumes "is_digit c"
  shows "c \<noteq> CHR ''_''" "c \<noteq> CHR ''-''" "c \<noteq> CHR ''+''" "c \<noteq> CHR ''w''"
        "c \<noteq> CHR ''|''" "c \<noteq> CHR ''@''" "\<not> is_space c"
  using assms by (auto simp: is_digit_def is_space_def)

lemma str_nat_small: "n < 10 \<Longrightarrow> str_nat n = [digit_char n]"
  by (subst str_nat.simps) simp

lemma str_nat_big: "\<not> n < 10 \<Longrightarrow> str_nat n = str_nat (n div 10) @ [digit_char (n mod 10)]"
  by (subst str_nat.simps) simp

lemma digits_str_nat: "c \<in> set (str_nat n) \<Longrightarrow> is_digit c"
proof (induction n arbitrary: c rule: str_nat.induct)
  case (1 n)
  show ?case
  proof (cases "n < 10")
    case True
    with "1.prems" show ?thesis by (simp add: str_nat_small is_digit_digit_char)
  next
    case False
    with "1.prems" have "c \<in> set (str_nat (n div 10)) \<or> c = digit_char (n mod 10)"
      by (auto simp: str_nat_big)
    then show ?thesis using "1.IH" False by (auto simp: is_digit_digit_char)
  qed
qed

lemma str_nat_not_Nil: "str_nat n \<noteq> []"
  by (cases "n < 10") (simp_all add: str_nat_small str_nat_big)

lemma digits_val_append_digit:
  "\<forall>c \<in> set ds. is_digit c \<Longrightarrow> is_digit c \<Longrightarrow>
   digits_val acc (ds @ [c]) = map_option (\<lambda>v. 10 * v + digit_val c) (digits_val acc ds)"
  by (induction ds arbitrary: acc) auto

lemma digits_val_str_nat: "digits_val 0 (str_nat n) = Some n"
proof (induction n rule: str_nat.induct)
  case (1 n)
  show ?case
  proof (cases "n < 10")
    case True
    then show ?thesis by (simp add: str_nat_small is_digit_digit_char digit_val_digit_char)
  next
    case False
    have "digits_val 0 (str_nat n) = digits_val 0 (str_nat (n div 10) @ [digit_char (n mod 10)])"
      using False by (simp add: str_nat_big)
    also have "\<dots> = map_option (\<lambda>v. 10 * v + digit_val (digit_char (n mod 10))) (digits_val 0 (str_nat (n div 10)))"
      by (rule digits_val_append_digit) (auto simp: digits_str_nat is_digit_digit_char)
    also have "\<dots> = Some n"
      using "1.IH" False by (simp add: digit_val_digit_char)
    finally show ?thesis .
  qed
qed

lemma py_nat_str_nat: "py_nat (str_nat n) = Some n"
proof -
  obtain c cs where s: "str_nat n = c # cs"
    using str_nat_not_Nil by (cases "str_nat n") auto
  then have "is_digit c" using digits_str_nat[of c n] by simp
  then show ?thesis using s digits_val_str_nat[of n] by (simp add: py_nat_def)
qed

lemma strip_digits:
  assumes "s \<noteq> []" "\<not> is_space (hd s)" "\<not> is_space (last s)"
  shows "strip s = s"
proof -
  have 1: "dropWhile is_space s = s" using assms by (cases s) auto
  have "dropWhile is_space (rev s) = rev s"
    using assms by (cases "rev s") (auto simp: last_rev[symmetric] hd_rev simp del: last_rev)
  then show ?thesis by (simp add: strip_def 1)
qed

lemma py_int_str_int: "py_int (str_int i) = Some i"
proof -
  let ?n = "str_nat (nat \<bar>i\<bar>)"
  obtain c cs where s: "?n = c # cs"
    using str_nat_not_Nil by (cases ?n) auto
  have dig: "\<And>x. x \<in> set ?n \<Longrightarrow> is_digit x" by (rule digits_str_nat)
  have c: "is_digit c" using dig s by simp
  have l: "is_digit (last ?n)" using dig str_nat_not_Nil last_in_set by blast
  show ?thesis
  proof (cases "i < 0")
    case True
    have "strip (CHR ''-'' # ?n) = CHR ''-'' # ?n"
      using l is_digit_not_special(7)[OF l]
      by (intro strip_digits) (auto simp: str_nat_not_Nil is_space_def)
    then show ?thesis using True py_nat_str_nat[of "nat \<bar>i\<bar>"]
      by (simp add: py_int_def str_int_def abs_if)
  next
    case False
    have "strip ?n = ?n"
      using is_digit_not_special(7)[OF l] is_digit_not_special(7)[OF c] s
      by (intro strip_digits) auto
    then show ?thesis using False py_nat_str_nat[of "nat \<bar>i\<bar>"] s c
      by (auto simp: py_int_def str_int_def abs_if is_digit_not_special)
  qed
qed

lemma split_str_not_Nil: "split_str sep s \<noteq> []"
  by (induction sep s rule: split_str.induct) (auto split: list.splits)

lemma split_str_step:
  "\<not> prefix sep (c # cs) \<Longrightarrow>
   split_str sep (c # cs) = (c # hd (split_str sep cs)) # tl (split_str sep cs)"
  using split_str_not_Nil[of sep cs] by (cases "split_str sep cs") simp_all

lemma replace_str_step:
  "\<not> prefix old (c # cs) \<Longrightarrow> replace_str old new (c # cs) = c # replace_str old new cs"
  by simp

lemma replace_first_step:
  "\<not> prefix old (c # cs) \<Longrightarrow> replace_first old new (c # cs) = c # replace_first old new cs"
  by simp

lemma contains_str_step:
  "\<not> prefix sub (c # cs) \<Longrightarrow> contains_str sub (c # cs) = contains_str sub cs"
  by simp

lemma no_sep_Nil: "no_sep []"
  by (simp add: no_sep_def)

lemma no_sep_Cons:
  "no_sep (c # cs) \<longleftrightarrow> (c = CHR ''_'' \<longrightarrow> cs \<noteq> [] \<and> hd cs \<noteq> CHR ''_'') \<and> no_sep cs"
  by (cases cs) (auto simp: no_sep_def)

lemma no_sep_not_prefix: "no_sep (c # cs) \<Longrightarrow> \<not> prefix ''__'' (c # cs @ ys)"
  by (cases cs) (auto simp: no_sep_Cons)

lemma no_sep_contains: "no_sep p \<Longrightarrow> \<not> contains_str ''__'' p"
proof (induction p)
  case Nil
  then show ?case by simp
next
  case (Cons c cs)
  from Cons.prems have np: "\<not> prefix ''__'' (c # cs @ [])" by (rule no_sep_not_prefix)
  have "no_sep cs" using Cons.prems by (simp add: no_sep_Cons)
  then show ?case using Cons.IH contains_str_step[OF np] by simp
qed

lemma contains_us_append: "no_sep p \<Longrightarrow> contains_str ''__'' (p @ ys) = contains_str ''__'' ys"
proof (induction p)
  case Nil
  then show ?case by simp
next
  case (Cons c cs)
  from Cons.prems have np: "\<not> prefix ''__'' (c # cs @ ys)" by (rule no_sep_not_prefix)
  have "no_sep cs" using Cons.prems by (simp add: no_sep_Cons)
  then show ?case using Cons.IH
    by (simp only: append_Cons contains_str_step[OF np] replace_str_step[OF np]
          replace_first_step[OF np] split_str_step[OF np] list.sel)
qed

lemma replace_us_append:
  "no_sep p \<Longrightarrow> replace_str ''__'' new (p @ ys) = p @ replace_str ''__'' new ys"
proof (induction p)
  case Nil
  then show ?case by simp
next
  case (Cons c cs)
  from Cons.prems have np: "\<not> prefix ''__'' (c # cs @ ys)" by (rule no_sep_not_prefix)
  have "no_sep cs" using Cons.prems by (simp add: no_sep_Cons)
  then show ?case using Cons.IH
    by (simp only: append_Cons contains_str_step[OF np] replace_str_step[OF np]
          replace_first_step[OF np] split_str_step[OF np] list.sel)
qed

lemma replace_first_us_append:
  "no_sep p \<Longrightarrow> replace_first ''__'' new (p @ ys) = p @ replace_first ''__'' new ys"
proof (induction p)
  case Nil
  then show ?case by simp
next
  case (Cons c cs)
  from Cons.prems have np: "\<not> prefix ''__'' (c # cs @ ys)" by (rule no_sep_not_prefix)
  have "no_sep cs" using Cons.prems by (simp add: no_sep_Cons)
  then show ?case using Cons.IH
    by (simp only: append_Cons contains_str_step[OF np] replace_str_step[OF np]
          replace_first_step[OF np] split_str_step[OF np] list.sel)
qed

lemma split_us_append:
  "no_sep p \<Longrightarrow>
   split_str ''__'' (p @ ys) = (p @ hd (split_str ''__'' ys)) # tl (split_str ''__'' ys)"
proof (induction p)
  case Nil
  then show ?case using split_str_not_Nil[of "''__''" ys] by simp
next
  case (Cons c cs)
  from Cons.prems have np: "\<not> prefix ''__'' (c # cs @ ys)" by (rule no_sep_not_prefix)
  have "no_sep cs" using Cons.prems by (simp add: no_sep_Cons)
  then show ?case using Cons.IH
    by (simp only: append_Cons contains_str_step[OF np] replace_str_step[OF np]
          replace_first_step[OF np] split_str_step[OF np] list.sel)
qed



lemma replace_first_us_sep: "replace_first ''__'' new (''__'' @ ys) = new @ ys"
  by simp

lemma split_no_occurrence: "\<not> contains_str ''__'' p \<Longrightarrow> split_str ''__'' p = [p]"
  by (induction p) auto

lemma replace_no_occurrence: "\<not> contains_str old p \<Longrightarrow> replace_str old new p = p"
  by (induction p) auto

lemma replace_first_no_occurrence: "\<not> contains_str old p \<Longrightarrow> replace_first old new p = p"
  by (induction p) auto

lemma split_join_well:
  "well_split ps \<Longrightarrow> split_str ''__'' (join_str ''__'' ps) = ps"
proof (induction ps rule: well_split.induct)
  case 1
  then show ?case by simp
next
  case (2 p)
  then show ?case by (simp add: split_no_occurrence)
next
  case (3 p q ps)
  then have "split_str ''__'' (p @ ''__'' @ join_str ''__'' (q # ps)) = p # q # ps"
    by (simp add: split_us_append del: split_str.simps append.simps)
       (simp)
  then show ?case by simp
qed

lemma replace_join_well:
  "well_split ps \<Longrightarrow> replace_str ''__'' new (join_str ''__'' ps) = join_str new ps"
proof (induction ps rule: well_split.induct)
  case 1
  then show ?case by simp
next
  case (2 p)
  then show ?case by (simp add: replace_no_occurrence)
next
  case (3 p q ps)
  have "replace_str ''__'' new (p @ ''__'' @ join_str ''__'' (q # ps))
        = p @ replace_str ''__'' new (''__'' @ join_str ''__'' (q # ps))"
    using 3 by (simp only: replace_us_append well_split.simps)
  then show ?case using 3 by simp
qed

lemma join_str_push:
  "qs \<noteq> [] \<Longrightarrow> join_str sep ((c # hd qs) # tl qs) = c # join_str sep qs"
proof (cases qs)
  case Nil
  assume "qs \<noteq> []" with Nil show ?thesis by simp
next
  case (Cons q qs')
  then show ?thesis by (cases qs') simp_all
qed

lemma well_split_push:
  assumes ws: "well_split qs" and np: "\<not> prefix ''__'' (c # join_str ''__'' qs)"
  shows "well_split ((c # hd qs) # tl qs)"
proof (cases qs)
  case Nil
  with ws show ?thesis by simp
next
  case (Cons q qs')
  show ?thesis
  proof (cases qs')
    case Nil
    with Cons ws np show ?thesis by (simp add: contains_str_step)
  next
    case (Cons q' qs'')
    with \<open>qs = q # qs'\<close> ws have nq: "no_sep q" and rest: "well_split (q' # qs'')" by simp_all
    have "c = CHR ''_'' \<longrightarrow> q \<noteq> [] \<and> hd q \<noteq> CHR ''_''"
      using np \<open>qs = q # qs'\<close> Cons by (cases q) auto
    then have "no_sep (c # q)" using nq by (simp add: no_sep_Cons)
    then show ?thesis using rest \<open>qs = q # qs'\<close> Cons by simp
  qed
qed

lemma split_structure:
  "well_split (split_str ''__'' s) \<and> join_str ''__'' (split_str ''__'' s) = s"
proof (induction s rule: length_induct)
  case (1 s)
  show ?case
  proof (cases s)
    case Nil
    then show ?thesis by simp
  next
    case (Cons c cs)
    show ?thesis
    proof (cases "prefix ''__'' (c # cs)")
      case True
      then obtain cs' where cs: "c = CHR ''_''" "cs = CHR ''_'' # cs'"
        by (cases cs) auto
      have "length cs' < length s" using Cons cs by simp
      then have ih: "well_split (split_str ''__'' cs')" "join_str ''__'' (split_str ''__'' cs') = cs'"
        using "1.IH" by auto
      obtain q qs where q: "split_str ''__'' cs' = q # qs"
        using split_str_not_Nil[of "''__''" cs'] by (cases "split_str ''__'' cs'") auto
      have sp: "split_str ''__'' s = [] # q # qs"
        using Cons cs q by simp
      show ?thesis using ih q Cons cs unfolding sp by (simp add: no_sep_Nil)
    next
      case False
      have "length cs < length s" using Cons by simp
      then have ih: "well_split (split_str ''__'' cs)" "join_str ''__'' (split_str ''__'' cs) = cs"
        using "1.IH" by auto
      have ne: "split_str ''__'' cs \<noteq> []" by (rule split_str_not_Nil)
      have sp: "split_str ''__'' s = (c # hd (split_str ''__'' cs)) # tl (split_str ''__'' cs)"
        unfolding Cons by (rule split_str_step[OF False])
      have "well_split ((c # hd (split_str ''__'' cs)) # tl (split_str ''__'' cs))"
        using ih False by (intro well_split_push) simp_all
      moreover have "join_str ''__'' ((c # hd (split_str ''__'' cs)) # tl (split_str ''__'' cs)) = c # cs"
        using join_str_push[OF ne, of "''__''" c] ih by simp
      ultimately show ?thesis by (simp only: sp Cons[symmetric])
    qed
  qed
qed

lemma encode_body:
  assumes "split_str ''__'' s = p # ps"
  shows "replace_str ''__'' ''|'' (replace_first ''__'' ''||'' s)
         = p @ (if ps = [] then [] else ''||'' @ join_str ''|'' ps)"
proof -
  have ws: "well_split (p # ps)" and j: "s = join_str ''__'' (p # ps)"
    using split_structure[of s] assms by simp_all
  show ?thesis
  proof (cases ps)
    case Nil
    then have "\<not> contains_str ''__'' s" using ws j by simp
    then show ?thesis using Nil j
      by (simp add: replace_no_occurrence replace_first_no_occurrence)
  next
    case (Cons q qs)
    then have np: "no_sep p" and wr: "well_split (q # qs)" using ws by simp_all
    let ?R = "join_str ''__'' (q # qs)"
    have s: "s = p @ ''__'' @ ?R" using j Cons by simp
    have "replace_first ''__'' ''||'' s = p @ ''||'' @ ?R"
      unfolding s by (simp only: replace_first_us_append[OF np] replace_first_us_sep)
    moreover have "replace_str ''__'' ''|'' (p @ ''||'' @ ?R) = p @ ''||'' @ replace_str ''__'' ''|'' ?R"
      by (simp only: replace_us_append[OF np]) simp
    ultimately show ?thesis using Cons replace_join_well[OF wr, of "''|''"] by simp
  qed
qed


lemma not_prefix_hd: "old \<noteq> [] \<Longrightarrow> hd old \<noteq> c \<Longrightarrow> \<not> prefix old (c # cs)"
  by (cases old) auto

lemma contains_free_append:
  "old \<noteq> [] \<Longrightarrow> hd old \<notin> set p \<Longrightarrow> contains_str old (p @ ys) = contains_str old ys"
  by (induction p) (simp_all add: not_prefix_hd)

lemma replace_free_append:
  "old \<noteq> [] \<Longrightarrow> hd old \<notin> set p \<Longrightarrow> replace_str old new (p @ ys) = p @ replace_str old new ys"
  by (induction p) (simp_all add: not_prefix_hd)

lemma replace_free: "old \<noteq> [] \<Longrightarrow> hd old \<notin> set p \<Longrightarrow> replace_str old new p = p"
  using replace_free_append[of old p new "[]"] by simp

lemma replace_char_append:
  "replace_str [c] new (xs @ ys) = replace_str [c] new xs @ replace_str [c] new ys"
  by (induction xs) auto

lemma no_underscore_no_sep: "CHR ''_'' \<notin> set xs \<Longrightarrow> no_sep xs"
  by (induction xs) (auto simp: no_sep_Nil no_sep_Cons)

lemma str_int_chars: "c \<in> set (str_int n) \<Longrightarrow> is_digit c \<or> c = CHR ''-''"
  by (auto simp: str_int_def digits_str_nat split: if_splits)

lemma str_int_not_Nil: "str_int n \<noteq> []"
  by (simp add: str_int_def str_nat_not_Nil)

lemma str_int_free:
  "CHR ''_'' \<notin> set (str_int n)" "CHR ''w'' \<notin> set (str_int n)"
  "CHR ''|'' \<notin> set (str_int n)" "CHR ''@'' \<notin> set (str_int n)"
proof -
  show "CHR ''_'' \<notin> set (str_int n)"
    using str_int_chars[of "CHR ''_''" n] is_digit_not_special(1)[of "CHR ''_''"] by auto
  show "CHR ''w'' \<notin> set (str_int n)"
    using str_int_chars[of "CHR ''w''" n] is_digit_not_special(4)[of "CHR ''w''"] by auto
  show "CHR ''|'' \<notin> set (str_int n)"
    using str_int_chars[of "CHR ''|''" n] is_digit_not_special(5)[of "CHR ''|''"] by auto
  show "CHR ''@'' \<notin> set (str_int n)"
    using str_int_chars[of "CHR ''@''" n] is_digit_not_special(6)[of "CHR ''@''"] by auto
qed

lemma contains_us_join_bar:
  "\<forall>q \<in> set qs. no_sep q \<Longrightarrow>
   contains_str ''__'' (join_str ''|'' qs @ Y) = contains_str ''__'' Y"
proof (induction qs rule: induct_list012)
  case 1
  then show ?case by simp
next
  case (2 q)
  then show ?case by (simp add: contains_us_append)
next
  case (3 q q' qs)
  have "contains_str ''__'' (q @ (''|'' @ join_str ''|'' (q' # qs) @ Y))
        = contains_str ''__'' (''|'' @ join_str ''|'' (q' # qs) @ Y)"
    using 3 by (intro contains_us_append) simp
  then show ?case using 3 by simp
qed

lemma contains_bar2_join_bar:
  assumes "\<forall>q \<in> set qs. q \<noteq> [] \<and> CHR ''|'' \<notin> set q" "Y \<noteq> []" "CHR ''|'' \<notin> set Y"
  shows "\<not> contains_str ''||'' (join_str ''|'' qs @ Y)
         \<and> hd (join_str ''|'' qs @ Y) \<noteq> CHR ''|''"
  using assms
proof (induction qs rule: induct_list012)
  case 1
  then show ?case
    using contains_free_append[of "''||''" Y "[]"] by (cases Y) auto
next
  case (2 q)
  have "contains_str ''||'' (q @ Y) = contains_str ''||'' Y"
    using 2 by (intro contains_free_append) simp_all
  moreover have "\<not> contains_str ''||'' Y"
    using contains_free_append[of "''||''" Y "[]"] 2 by simp
  ultimately show ?case using 2 by (cases q) auto
next
  case (3 q q' qs)
  let ?Z = "join_str ''|'' (q' # qs) @ Y"
  have ih: "\<not> contains_str ''||'' ?Z" "hd ?Z \<noteq> CHR ''|''"
    using 3 by simp_all
  have zne: "?Z \<noteq> []" using 3 by simp
  have "contains_str ''||'' (q @ (''|'' @ ?Z)) = contains_str ''||'' (''|'' @ ?Z)"
    using 3 by (intro contains_free_append) simp_all
  moreover have "\<not> contains_str ''||'' (''|'' @ ?Z)"
    using ih zne by (cases ?Z) auto
  ultimately show ?case using 3 by (cases q) auto
qed

lemma replace_bar_join:
  "\<forall>q \<in> set qs. CHR ''|'' \<notin> set q \<Longrightarrow>
   replace_str ''|'' ''__'' (join_str ''|'' qs) = join_str ''__'' qs"
proof (induction qs rule: induct_list012)
  case 1
  then show ?case by simp
next
  case (2 q)
  then show ?case by (simp add: replace_free)
next
  case (3 q q' qs)
  then show ?case
    by (simp add: replace_char_append replace_free del: replace_str.simps)
       (simp)
qed

lemma set_join_str: "set (join_str sep ps) \<subseteq> set sep \<union> (\<Union>p \<in> set ps. set p)"
  by (induction sep ps rule: join_str.induct) auto

lemma join_str_snoc: "ps \<noteq> [] \<Longrightarrow> join_str sep (ps @ [x]) = join_str sep ps @ sep @ x"
  by (induction sep ps rule: join_str.induct) auto

lemma well_split_all: "ps \<noteq> [] \<Longrightarrow> \<forall>p \<in> set ps. no_sep p \<Longrightarrow> well_split ps"
  by (induction ps rule: induct_list012) (auto dest: no_sep_contains)


lemma window_tag_facts:
  shows "CHR ''|'' \<notin> set (''@window_'' @ str_int n)"
    and "\<not> contains_str ''__'' (''@window_'' @ str_int n)"
    and "no_sep (''window_'' @ str_int n)"
    and "contains_str ''window_'' (''window_'' @ str_int n)"
    and "replace_str ''window_'' [] (''window_'' @ str_int n) = str_int n"
    and "replace_str ''@'' ''__'' (''@window_'' @ str_int n) = ''__'' @ ''window_'' @ str_int n"
proof -
  obtain c cs where s: "str_int n = c # cs"
    using str_int_not_Nil[of n] by (cases "str_int n") auto
  have c: "c \<noteq> CHR ''_''" using str_int_free(1)[of n] s by auto
  have ns: "no_sep (str_int n)" by (rule no_underscore_no_sep) (rule str_int_free)
  show "CHR ''|'' \<notin> set (''@window_'' @ str_int n)"
    using str_int_free(3)[of n] by simp
  show "no_sep (''window_'' @ str_int n)"
    using ns c s by (simp add: no_sep_Cons)
  then have "\<not> contains_str ''__'' (''window_'' @ str_int n)" by (rule no_sep_contains)
  then show "\<not> contains_str ''__'' (''@window_'' @ str_int n)" by simp
  show "contains_str ''window_'' (''window_'' @ str_int n)" by simp
  have "replace_str ''window_'' [] (str_int n) = str_int n"
    by (rule replace_free) (simp_all add: str_int_free)
  then show "replace_str ''window_'' [] (''window_'' @ str_int n) = str_int n" by simp
  have "replace_str ''@'' ''__'' (''window_'' @ str_int n) = ''window_'' @ str_int n"
    by (rule replace_free) (simp_all add: str_int_free)
  then show "replace_str ''@'' ''__'' (''@window_'' @ str_int n) = ''__'' @ ''window_'' @ str_int n"
    by simp
qed

lemma decode_encoded:
  assumes seg: "\<forall>x \<in> set (p # qs). segment_ok x" and ne: "qs \<noteq> []"
  shows "parse_feature_timeseries_parts
           (p @ ''||'' @ join_str ''|'' qs @ ''@window_'' @ str_int n)
         = Inr \<lparr>window_length = n, fts_parts = p # qs\<rparr>"
proof -
  let ?T = "''@window_'' @ str_int n"
  let ?W = "''window_'' @ str_int n"
  let ?E = "p @ ''||'' @ join_str ''|'' qs @ ?T"
  have p: "p \<noteq> []" "CHR ''|'' \<notin> set p" "CHR ''@'' \<notin> set p" "no_sep p"
    using seg by (simp_all add: segment_ok_def)
  have qs: "\<forall>q \<in> set qs. no_sep q" "\<forall>q \<in> set qs. q \<noteq> [] \<and> CHR ''|'' \<notin> set q"
           "\<forall>q \<in> set qs. CHR ''|'' \<notin> set q" "\<forall>q \<in> set qs. CHR ''@'' \<notin> set q"
    using seg by (simp_all add: segment_ok_def)
  note T = window_tag_facts[of n]

  have "contains_str ''__'' ?E = contains_str ''__'' (''||'' @ join_str ''|'' qs @ ?T)"
    by (rule contains_us_append[OF p(4)])
  also have "\<dots> = contains_str ''__'' (join_str ''|'' qs @ ?T)" by simp
  also have "\<dots> = contains_str ''__'' ?T" by (rule contains_us_join_bar[OF qs(1)])
  finally have "\<not> contains_str ''__'' ?E" using T(2) by simp
  then have step1: "hd (split_str ''__'' ?E) = ?E" by (simp add: split_no_occurrence)

  have nb: "\<not> contains_str ''||'' (join_str ''|'' qs @ ?T)"
    using contains_bar2_join_bar[OF qs(2) _ T(1)] by simp
  have "replace_str ''||'' ''__'' ?E = p @ replace_str ''||'' ''__'' (''||'' @ join_str ''|'' qs @ ?T)"
    using p(2) by (intro replace_free_append) simp_all
  also have "\<dots> = p @ ''__'' @ replace_str ''||'' ''__'' (join_str ''|'' qs @ ?T)" by simp
  also have "\<dots> = p @ ''__'' @ join_str ''|'' qs @ ?T"
    using replace_no_occurrence[OF nb] by simp
  finally have step2: "replace_str ''||'' ''__'' ?E = p @ ''__'' @ join_str ''|'' qs @ ?T" .

  have r1: "replace_str ''|'' ''__'' p = p" using p(2) by (intro replace_free) simp_all
  have r2: "replace_str ''|'' ''__'' ''__'' = ''__''" by simp
  have r3: "replace_str ''|'' ''__'' ?T = ?T" using T(1) by (intro replace_free) simp_all
  have "replace_str ''|'' ''__'' (p @ ''__'' @ join_str ''|'' qs @ ?T)
        = p @ replace_str ''|'' ''__'' (''__'' @ join_str ''|'' qs @ ?T)"
    using p(2) by (intro replace_free_append) simp_all
  also have "\<dots> = p @ ''__'' @ replace_str ''|'' ''__'' (join_str ''|'' qs @ ?T)" by simp
  also have "\<dots> = p @ ''__'' @ replace_str ''|'' ''__'' (join_str ''|'' qs)
                        @ replace_str ''|'' ''__'' ?T"
    by (simp only: replace_char_append[of _ _ "join_str ''|'' qs" ?T])
  finally have step3: "replace_str ''|'' ''__'' (p @ ''__'' @ join_str ''|'' qs @ ?T)
               = p @ ''__'' @ join_str ''__'' qs @ ?T"
    by (simp only: r3 replace_bar_join[OF qs(3)])

  have "CHR ''@'' \<notin> set (join_str ''__'' qs)"
    using set_join_str[of "''__''" qs] qs(4) by auto
  then have a2: "replace_str ''@'' ''__'' (join_str ''__'' qs) = join_str ''__'' qs"
    by (intro replace_free) simp_all
  have a1: "replace_str ''@'' ''__'' p = p" using p(3) by (intro replace_free) simp_all
  have a3: "replace_str ''@'' ''__'' ''__'' = ''__''" by simp
  have "replace_str ''@'' ''__'' (p @ ''__'' @ join_str ''__'' qs @ ?T)
        = p @ replace_str ''@'' ''__'' (''__'' @ join_str ''__'' qs @ ?T)"
    using p(3) by (intro replace_free_append) simp_all
  also have "\<dots> = p @ ''__'' @ replace_str ''@'' ''__'' (join_str ''__'' qs @ ?T)" by simp
  also have "\<dots> = p @ ''__'' @ replace_str ''@'' ''__'' (join_str ''__'' qs)
                        @ replace_str ''@'' ''__'' ?T"
    by (simp only: replace_char_append[of _ _ "join_str ''__'' qs" ?T])
  also have "\<dots> = p @ ''__'' @ join_str ''__'' qs @ ''__'' @ ?W"
    by (simp only: a2 T(6))
  also have "\<dots> = join_str ''__'' ((p # qs) @ [?W])"
  proof -
    have "join_str ''__'' ((p # qs) @ [?W]) = join_str ''__'' (p # qs) @ ''__'' @ ?W"
      by (rule join_str_snoc) simp
    moreover have "join_str ''__'' (p # qs) = p @ ''__'' @ join_str ''__'' qs"
      using ne by (cases qs) simp_all
    ultimately show ?thesis by (simp only: append_assoc)
  qed
  finally have step4: "replace_str ''@'' ''__'' (p @ ''__'' @ join_str ''__'' qs @ ?T)
        = join_str ''__'' ((p # qs) @ [?W])" .

  have "well_split ((p # qs) @ [?W])"
    using p(4) qs(1) T(3) by (intro well_split_all) auto
  then have step5: "split_str ''__'' (join_str ''__'' ((p # qs) @ [?W])) = (p # qs) @ [?W]"
    by (rule split_join_well)

  have parts: "split_str ''__''
            (replace_str ''@'' ''__''
              (replace_str ''|'' ''__''
                (replace_str ''||'' ''__'' (hd (split_str ''__'' ?E))))) = (p # qs) @ [?W]"
    by (simp only: step1 step2 step3 step4 step5)
  have len: "length (p # qs) \<noteq> 1" using ne by (cases qs) simp_all
  show ?thesis
    unfolding parse_feature_timeseries_parts_def fts_tokens_def parts Let_def
    using T(4) T(5) py_int_str_int[of n] len
    by (simp only: last_snoc butlast_snoc) simp
qed

lemma well_split_butlast: "well_split ps \<Longrightarrow> p \<in> set (butlast ps) \<Longrightarrow> no_sep p"
  by (induction ps rule: well_split.induct) auto

lemma well_split_last: "well_split ps \<Longrightarrow> \<not> contains_str ''__'' (last ps)"
  by (induction ps rule: well_split.induct) auto

lemma no_sep_last:
  "\<not> contains_str ''__'' x \<Longrightarrow> x \<noteq> [] \<Longrightarrow> last x \<noteq> CHR ''_'' \<Longrightarrow> no_sep x"
proof (induction x)
  case Nil
  then show ?case by simp
next
  case (Cons c cs)
  show ?case
  proof (cases cs)
    case Nil
    with Cons.prems show ?thesis by (simp add: no_sep_Cons no_sep_Nil)
  next
    case (Cons d ds)
    with Cons.prems Cons.IH show ?thesis by (auto simp: no_sep_Cons)
  qed
qed

lemma join_str_not_Nil: "ps \<noteq> [] \<Longrightarrow> last ps \<noteq> [] \<Longrightarrow> join_str sep ps \<noteq> []"
  by (induction sep ps rule: join_str.induct) auto

lemma last_join_str:
  "ps \<noteq> [] \<Longrightarrow> last ps \<noteq> [] \<Longrightarrow> last (join_str sep ps) = last (last ps)"
proof (induction sep ps rule: join_str.induct)
  case (1 sep)
  then show ?case by simp
next
  case (2 sep p)
  then show ?case by simp
next
  case (3 sep p q ps)
  then have "join_str sep (q # ps) \<noteq> []" by (intro join_str_not_Nil) simp_all
  then show ?case using 3 by simp
qed

lemma canonical_segments:
  assumes "canonical_name name"
  shows "\<forall>x \<in> set (split_str ''__'' name). segment_ok x"
proof -
  let ?ps = "split_str ''__'' name"
  have ws: "well_split ?ps" and j: "join_str ''__'' ?ps = name"
    using split_structure[of name] by simp_all
  have ne: "?ps \<noteq> []" by (rule split_str_not_Nil)
  have basic: "\<forall>p \<in> set ?ps. p \<noteq> [] \<and> CHR ''|'' \<notin> set p \<and> CHR ''@'' \<notin> set p"
    using assms by (simp add: canonical_name_def list_all_iff)
  have lne: "last ?ps \<noteq> []" using basic ne last_in_set by blast
  have "last (last ?ps) = last name"
    using last_join_str[OF ne lne, of "''__''"] j by simp
  then have "no_sep (last ?ps)"
    using well_split_last[OF ws] lne assms by (intro no_sep_last) (simp_all add: canonical_name_def)
  moreover have "\<forall>p \<in> set (butlast ?ps). no_sep p"
    using well_split_butlast[OF ws] by blast
  ultimately have "\<forall>p \<in> set ?ps. no_sep p"
    using ne by (metis append_butlast_last_id in_set_butlast_appendI insert_iff
        list.set(1,2) set_append Un_iff empty_iff)
  then show ?thesis using basic by (simp add: segment_ok_def)
qed

lemma roundtrip_lemma:
  assumes "canonical_name name"
  shows "parse_feature_timeseries_parts (clean_feature_timeseries_name name n)
         = Inr \<lparr>window_length = n, fts_parts = split_str ''__'' name\<rparr>"
proof -
  obtain p q qs where sp: "split_str ''__'' name = p # q # qs"
  proof (cases "split_str ''__'' name")
    case Nil
    then show ?thesis using assms by (simp add: canonical_name_def)
  next
    case (Cons p ps)
    then show ?thesis using assms that by (cases ps) (auto simp: canonical_name_def)
  qed
  have seg: "\<forall>x \<in> set (p # q # qs). segment_ok x"
    using canonical_segments[OF assms] sp by simp
  have "clean_feature_timeseries_name name n
        = p @ ''||'' @ join_str ''|'' (q # qs) @ ''@window_'' @ str_int n"
    using encode_body[OF sp] by (simp add: clean_feature_timeseries_name_def)
  then show ?thesis using decode_encoded[OF seg, of n] sp by simp
qed

section \<open>The round trip of the codec\<close>

text \<open>
  Two names that are not canonical, and what becomes of them: after a trailing underscore
  the window tag is no longer read as an integer, and an empty segment among the parameters
  is lost on the way back.
\<close>

lemma trailing_underscore_not_decoded:
  "parse_feature_timeseries_parts (clean_feature_timeseries_name ''a__b_'' 5)
   = Inl (ValueError (InvalidIntLiteral ''_5''))"
  by code_simp

lemma empty_segment_not_recovered:
  "split_str ''__'' ''a__b____c'' = [''a'', ''b'', [], ''c'']
   \<and> parse_feature_timeseries_parts (clean_feature_timeseries_name ''a__b____c'' 5)
       = Inr \<lparr>window_length = 5, fts_parts = [''a'', ''b'', ''c'']\<rparr>"
  by code_simp

text \<open>
  C1. For every canonical name and every window length (in particular every positive one),
  decoding the encoded name gives back that window length, and the parts it returns are
  exactly the \<^verbatim>\<open>__\<close>-separated segments of the original name; joining those parts again
  and encoding gives the same encoded name.
\<close>

theorem roundtrip:
  assumes "canonical_name name"
  shows "parse_feature_timeseries_parts (clean_feature_timeseries_name name n)
           = Inr \<lparr>window_length = n, fts_parts = split_str ''__'' name\<rparr>
         \<and> clean_feature_timeseries_name (join_str ''__'' (split_str ''__'' name)) n
           = clean_feature_timeseries_name name n"
  using roundtrip_lemma[OF assms] split_structure[of name] by simp

theorem roundtrip_witness:
  "canonical_name ''temperature__mean__lag_1''
   \<and> parse_feature_timeseries_parts (clean_feature_timeseries_name ''temperature__mean__lag_1'' 5)
       = Inr \<lparr>window_length = 5, fts_parts = [''temperature'', ''mean'', ''lag_1'']\<rparr>"
proof -
  have c: "canonical_name ''temperature__mean__lag_1''"
    by (simp add: canonical_name_def)
  have s: "split_str ''__'' ''temperature__mean__lag_1'' = [''temperature'', ''mean'', ''lag_1'']"
    by simp
  show ?thesis using c roundtrip[OF c, of 5] s by simp
qed

section \<open>The encoder\<close>

lemma str_int_zero: "str_int 0 = ''0''"
  by code_simp


text \<open>The encoder at window length 0: nothing is rejected, the tag \<^verbatim>\<open>@window_0\<close> is written.\<close>

theorem encode_zero_counterexample:
  "clean_feature_timeseries_name ''a__b'' 0 = ''a||b@window_0''"
  by code_simp

text \<open>
  C5, as the code has it. The encoder has no check on the window length: for window length 0
  it returns the rewritten name with \<^verbatim>\<open>@window_0\<close> appended, and for a canonical name the
  decoder reads that tag back as window length 0.
\<close>

theorem encode_zero:
  "clean_feature_timeseries_name name 0
     = replace_str ''__'' ''|'' (replace_first ''__'' ''||'' name) @ ''@window_0''
   \<and> (canonical_name name \<longrightarrow>
        parse_feature_timeseries_parts (clean_feature_timeseries_name name 0)
          = Inr \<lparr>window_length = 0, fts_parts = split_str ''__'' name\<rparr>)"
  using roundtrip_lemma[of name 0]
  by (simp add: clean_feature_timeseries_name_def str_int_zero)

theorem encode_zero_witness:
  "canonical_name ''a__b''
   \<and> parse_feature_timeseries_parts (clean_feature_timeseries_name ''a__b'' 0)
       = Inr \<lparr>window_length = 0, fts_parts = [''a'', ''b'']\<rparr>"
proof -
  have c: "canonical_name ''a__b''" by (simp add: canonical_name_def)
  have s: "split_str ''__'' ''a__b'' = [''a'', ''b'']" by simp
  have "parse_feature_timeseries_parts (clean_feature_timeseries_name ''a__b'' 0)
          = Inr \<lparr>window_length = 0, fts_parts = split_str ''__'' ''a__b''\<rparr>"
    using encode_zero[of "''a__b''"] c by blast
  then show ?thesis using c by (simp only: s simp_thms)
qed

section \<open>What the decoder rejects\<close>

text \<open>
  The integer reader on whitespace: the separator \<^verbatim>\<open>\x1c\<close> is not stripped, the no-break
  space \<^verbatim>\<open>\xa0\<close> and the next-line character \<^verbatim>\<open>\x85\<close> are.
\<close>

lemma py_int_whitespace:
  "py_int [CHR 0x1C, CHR ''5''] = None
   \<and> py_int [CHR 0xA0, CHR ''5''] = Some 5
   \<and> py_int [CHR 0x85, CHR ''5'', CHR '' ''] = Some 5
   \<and> py_int '' -1_0 '' = Some (- 10)
   \<and> py_int ''1__0'' = None"
  by code_simp

text \<open>
  A last token that is not of the form \<^verbatim>\<open>window_<integer>\<close> and is accepted all the same: the
  check is that \<^verbatim>\<open>window_\<close> occurs somewhere in the token, and the integer is read from
  what is left once every \<^verbatim>\<open>window_\<close> is deleted.
\<close>

theorem decode_loose_counterexample:
  "last (fts_tokens ''a||b@5window_'') = ''5window_''
   \<and> parse_feature_timeseries_parts ''a||b@5window_''
       = Inr \<lparr>window_length = 5, fts_parts = [''a'', ''b'']\<rparr>"
  by code_simp

text \<open>
  C4, as the code has it. The decoder fails with a \<^verbatim>\<open>ValueError\<close>, and returns no window
  length, for every input whose last token of the part before the first \<^verbatim>\<open>__\<close> does not
  contain \<^verbatim>\<open>window_\<close>, and for every input whose last token, with each \<^verbatim>\<open>window_\<close>
  deleted, is not an integer literal: optional whitespace around an optional sign and
  decimal digits, with single underscores allowed between digits.
\<close>

theorem decode_rejects:
  assumes "\<not> contains_str ''window_'' (last (fts_tokens s))
           \<or> py_int (replace_str ''window_'' [] (last (fts_tokens s))) = None"
  shows "(\<exists>e. parse_feature_timeseries_parts s = Inl (ValueError e))
         \<and> (\<forall>r. parse_feature_timeseries_parts s \<noteq> Inr r)"
  using assms by (auto simp: parse_feature_timeseries_parts_def Let_def)

theorem decode_rejects_witness:
  "\<not> contains_str ''window_'' (last (fts_tokens ''a||b|c__d''))
   \<and> (\<exists>e. parse_feature_timeseries_parts ''a||b|c__d'' = Inl (ValueError e))"
proof -
  have h: "\<not> contains_str ''window_'' (last (fts_tokens ''a||b|c__d''))"
    by code_simp
  then show ?thesis using decode_rejects[of "''a||b|c__d''"] by blast
qed

section \<open>The decoders on concrete names\<close>

text \<open>
  C8. Decoding \<^verbatim>\<open>"a||b|c@window_3__d__e"\<close>: \<^verbatim>\<open>parse_feature_timeseries_parts\<close> returns the
  parts \<^verbatim>\<open>["a", "b", "c"]\<close> with window length 3, and \<^verbatim>\<open>parse_feature_dynamics_parts\<close> returns
  \<^verbatim>\<open>["a||b|c@window_3", "d", "e"]\<close>.
\<close>

theorem decode_example:
  "parse_feature_timeseries_parts ''a||b|c@window_3__d__e''
     = Inr \<lparr>window_length = 3, fts_parts = [''a'', ''b'', ''c'']\<rparr>
   \<and> parse_feature_dynamics_parts ''a||b|c@window_3__d__e''
     = Inr [''a||b|c@window_3'', ''d'', ''e'']"
  by code_simp

text \<open>
  C10. The decoder accepts a window tag that carries a negative integer: on
  \<^verbatim>\<open>"a||b@window_-3__d"\<close> it succeeds with window length -3. Non-positive window lengths
  are not rejected.
\<close>

theorem decode_negative_window:
  "parse_feature_timeseries_parts ''a||b@window_-3__d''
     = Inr \<lparr>window_length = - 3, fts_parts = [''a'', ''b'']\<rparr>"
  by code_simp

section \<open>Building the feature dictionaries\<close>

lemma lookup_entry_put:
  "lookup_entry
     (d(w \<mapsto> (case d w of None \<Rightarrow> Map.empty | Some ks \<Rightarrow> ks)
              (k \<mapsto> calcs))) w' k' f'
   = (if w' = w \<and> k' = k then calcs f' else lookup_entry d w' k' f')"
  by (auto simp: lookup_entry_def split: option.splits)

lemma lookup_entry_calcs:
  "(case (case d w of None \<Rightarrow> Map.empty | Some ks \<Rightarrow> ks) k of
      None \<Rightarrow> Map.empty | Some cs \<Rightarrow> cs) f = lookup_entry d w k f"
  by (auto simp: lookup_entry_def split: option.splits)

lemma update_unknown:
  assumes "\<not> hc feature_name"
  shows "\<exists>d'. update_feature_dictionary hc gc d w (ts_kind # feature_name # params)
               = Inl (ValueError (UnknownFeatureName feature_name), d')
             \<and> (\<forall>w' k f. lookup_entry d' w' k f = lookup_entry d w' k f)"
  using assms
  by (simp add: update_feature_dictionary_def Let_def lookup_entry_put lookup_entry_calcs)

lemma derive_loop_append:
  "derive_loop hc gc (xs @ ys) maps
   = (case derive_loop hc gc xs maps of Inl e \<Rightarrow> Inl e | Inr m \<Rightarrow> derive_loop hc gc ys m)"
proof (induction xs arbitrary: maps)
  case Nil
  then show ?case by simp
next
  case (Cons x xs)
  obtain a b where m: "maps = (a, b)" by (cases maps)
  show ?case unfolding m using Cons.IH
    by (simp split: sum.splits prod.splits)
qed

text \<open>
  C9. A calculator name that the catalog does not know makes \<^verbatim>\<open>update_feature_dictionary\<close>
  raise the \<^verbatim>\<open>ValueError\<close> for an unknown feature name, and no calculator entry of the
  dictionary has changed when it does. In \<^verbatim>\<open>derive_features_dictionaries\<close>, once the names
  before it have been processed, a name whose decoded stage-1 calculator is unknown, or whose
  stage-1 update succeeds and whose stage-2 calculator is unknown, makes the whole call raise
  that error; no name after it is looked at.
\<close>

theorem unknown_calculator:
  assumes "\<not> hc feature_name"
  shows "(\<exists>d'. update_feature_dictionary hc gc d w (ts_kind # feature_name # params)
               = Inl (ValueError (UnknownFeatureName feature_name), d')
             \<and> (\<forall>w' k f. lookup_entry d' w' k f = lookup_entry d w' k f))
       \<and> (derive_features_dictionaries hc gc before = Inr (fts_mapping, fd_mapping)
            \<and> parse_feature_timeseries_parts name = Inr info
            \<and> fts_parts info = ts_kind # feature_name # params
          \<longrightarrow> derive_features_dictionaries hc gc (before @ name # after)
              = Inl (ValueError (UnknownFeatureName feature_name)))
       \<and> (derive_features_dictionaries hc gc before = Inr (fts_mapping, fd_mapping)
            \<and> parse_feature_timeseries_parts name = Inr info
            \<and> update_feature_dictionary hc gc fts_mapping (window_length info) (fts_parts info)
                = Inr fts_mapping'
            \<and> parse_feature_dynamics_parts name = Inr (ts_kind # feature_name # params)
          \<longrightarrow> derive_features_dictionaries hc gc (before @ name # after)
              = Inl (ValueError (UnknownFeatureName feature_name)))"
proof (intro conjI impI)
  show "\<exists>d'. update_feature_dictionary hc gc d w (ts_kind # feature_name # params)
               = Inl (ValueError (UnknownFeatureName feature_name), d')
             \<and> (\<forall>w' k f. lookup_entry d' w' k f = lookup_entry d w' k f)"
    using assms by (rule update_unknown)
next
  assume a: "derive_features_dictionaries hc gc before = Inr (fts_mapping, fd_mapping)
            \<and> parse_feature_timeseries_parts name = Inr info
            \<and> fts_parts info = ts_kind # feature_name # params"
  obtain d' where "update_feature_dictionary hc gc fts_mapping (window_length info)
                     (ts_kind # feature_name # params)
                   = Inl (ValueError (UnknownFeatureName feature_name), d')"
    using update_unknown[where hc=hc and feature_name=feature_name and gc=gc and d=fts_mapping
        and w="window_length info" and ts_kind=ts_kind and params=params] assms by blast
  then show "derive_features_dictionaries hc gc (before @ name # after)
              = Inl (ValueError (UnknownFeatureName feature_name))"
    using a by (simp add: derive_features_dictionaries_def derive_loop_append)
next
  assume a: "derive_features_dictionaries hc gc before = Inr (fts_mapping, fd_mapping)
            \<and> parse_feature_timeseries_parts name = Inr info
            \<and> update_feature_dictionary hc gc fts_mapping (window_length info) (fts_parts info)
                = Inr fts_mapping'
            \<and> parse_feature_dynamics_parts name = Inr (ts_kind # feature_name # params)"
  obtain d' where "update_feature_dictionary hc gc fd_mapping (window_length info)
                     (ts_kind # feature_name # params)
                   = Inl (ValueError (UnknownFeatureName feature_name), d')"
    using update_unknown[where hc=hc and feature_name=feature_name and gc=gc and d=fd_mapping
        and w="window_length info" and ts_kind=ts_kind and params=params] assms by blast
  then show "derive_features_dictionaries hc gc (before @ name # after)
              = Inl (ValueError (UnknownFeatureName feature_name))"
    using a by (simp add: derive_features_dictionaries_def derive_loop_append)
qed

theorem unknown_calculator_witness:
  "\<not> small_catalog ''bogus''
   \<and> derive_features_dictionaries small_catalog raw_config
        ([''x||mean@window_5__median''] @ ''x||bogus@window_5__mean'' # [''x||median@window_5__mean''])
      = Inl (ValueError (UnknownFeatureName ''bogus''))"
proof -
  have h: "\<not> small_catalog ''bogus''" by (simp add: small_catalog_def)
  obtain fts fd where b: "derive_features_dictionaries small_catalog raw_config
            [''x||mean@window_5__median''] = Inr (fts, fd)"
    by (simp add: derive_features_dictionaries_def parse_feature_timeseries_parts_def
          fts_tokens_def parse_feature_dynamics_parts_def update_feature_dictionary_def
          small_catalog_def raw_config_def py_int_def py_nat_def strip_def is_space_def
          is_digit_def digit_val_def Let_def)
  have p: "parse_feature_timeseries_parts ''x||bogus@window_5__mean''
           = Inr \<lparr>window_length = 5, fts_parts = [''x'', ''bogus'']\<rparr>"
    by code_simp
  show ?thesis
    using h b p
      unknown_calculator[where hc=small_catalog and feature_name="''bogus''" and gc=raw_config
        and ts_kind="''x''" and params="[]" and before="[''x||mean@window_5__median'']"
        and fts_mapping=fts and fd_mapping=fd and name="''x||bogus@window_5__mean''"
        and info="\<lparr>window_length = 5, fts_parts = [''x'', ''bogus'']\<rparr>"
        and after="[''x||median@window_5__mean'']"]
    by simp
qed

section \<open>What a sequence of updates accumulates\<close>

lemma unique_first_snoc:
  "unique_first (xs @ [c]) = (if c \<in> set xs then unique_first xs else unique_first xs @ [c])"
  by (simp add: unique_first_def)

lemma set_unique_first: "set (unique_first xs) = set xs"
  by (simp add: unique_first_def)


lemma foldl_append_new:
  "foldl append_new (unique_first xs) cs = unique_first (xs @ cs)"
proof (induction cs arbitrary: xs)
  case Nil
  then show ?case by simp
next
  case (Cons c cs)
  have "append_new (unique_first xs) c = unique_first (xs @ [c])"
    by (simp add: append_new_def unique_first_snoc set_unique_first)
  then show ?case using Cons.IH[of "xs @ [c]"] by simp
qed

lemma distinct_append_new: "distinct cs \<Longrightarrow> distinct (append_new cs c)"
  by (simp add: append_new_def)

lemma update_ok_parts:
  assumes "update_feature_dictionary hc gc d w' parts = Inr d1"
  obtains k' f' ps where "parts = k' # f' # ps"
proof (cases parts)
  case Nil
  then show ?thesis using assms by (simp add: update_feature_dictionary_def)
next
  case (Cons k' rest)
  then show ?thesis using assms that
    by (cases rest) (simp_all add: update_feature_dictionary_def)
qed

lemma update_lookup:
  assumes u: "update_feature_dictionary hc gc d w' (k' # f' # ps) = Inr d1"
  shows "lookup_entry d1 w k f
         = (if w = w' \<and> k = k' \<and> f = f'
            then (case gc (k' # f' # ps) of
                    Inr (Some c) \<Rightarrow>
                      Some (Some (append_new
                        (case lookup_entry d w' k' f' of Some (Some cs) \<Rightarrow> cs | _ \<Rightarrow> []) c))
                  | _ \<Rightarrow> Some None)
            else lookup_entry d w k f)"
proof -
  define kinds where "kinds = (case d w' of None \<Rightarrow> Map.empty | Some ks \<Rightarrow> ks)"
  define calcs where "calcs = (case kinds k' of None \<Rightarrow> Map.empty | Some cs \<Rightarrow> cs)"
  have cl: "calcs g = lookup_entry d w' k' g" for g
    by (simp add: calcs_def kinds_def lookup_entry_calcs)
  have put: "lookup_entry (d(w' \<mapsto> kinds(k' \<mapsto> X))) w k f
             = (if w = w' \<and> k = k' then X f else lookup_entry d w k f)" for X
    unfolding kinds_def by (rule lookup_entry_put)
  have u': "(if \<not> hc f' then Inl (ValueError (UnknownFeatureName f'), d(w' \<mapsto> kinds(k' \<mapsto> calcs)))
             else (case gc (k' # f' # ps) of
                     Inl e \<Rightarrow> Inl (e, d(w' \<mapsto> kinds(k' \<mapsto> calcs)))
                   | Inr None \<Rightarrow> Inr (d(w' \<mapsto> kinds(k' \<mapsto> calcs(f' \<mapsto> None))))
                   | Inr (Some config) \<Rightarrow>
                       (case calcs f' of
                          None \<Rightarrow> Inr (d(w' \<mapsto> kinds(k' \<mapsto> calcs(f' \<mapsto> Some [config]))))
                        | Some None \<Rightarrow> Inl (TypeError, d(w' \<mapsto> kinds(k' \<mapsto> calcs)))
                        | Some (Some configs) \<Rightarrow>
                            Inr (d(w' \<mapsto> kinds(k' \<mapsto> calcs(f' \<mapsto>
                              Some (append_new configs config)))))))) = Inr d1"
    using u unfolding update_feature_dictionary_def Let_def list.case
      kinds_def[symmetric] calcs_def[symmetric] .
  then have hc: "hc f'" by (cases "hc f'") simp_all
  show ?thesis
  proof (cases "gc (k' # f' # ps)")
    case (Inl e)
    then show ?thesis using u' hc by simp
  next
    case (Inr oc)
    show ?thesis
    proof (cases oc)
      case None
      then have "d1 = d(w' \<mapsto> kinds(k' \<mapsto> calcs(f' \<mapsto> None)))"
        using u' hc Inr by simp
      then show ?thesis using Inr None by (simp add: put cl)
    next
      case (Some c)
      show ?thesis
      proof (cases "calcs f'")
        case None
        then have "d1 = d(w' \<mapsto> kinds(k' \<mapsto> calcs(f' \<mapsto> Some [c])))"
          using u' hc Inr Some by simp
        then show ?thesis using Inr Some None cl[of f']
          by (simp add: put cl append_new_def)
      next
        case (Some oc')
        note sc = this
        show ?thesis
        proof (cases oc')
          case None
          then show ?thesis using u' hc Inr \<open>oc = Some c\<close> sc by simp
        next
          case (Some cs)
          then have "d1 = d(w' \<mapsto> kinds(k' \<mapsto> calcs(f' \<mapsto> Some (append_new cs c))))"
            using u' hc Inr \<open>oc = Some c\<close> sc by simp
          then show ?thesis using Inr \<open>oc = Some c\<close> sc Some cl[of f']
            by (simp add: put cl)
        qed
      qed
    qed
  qed
qed

lemma update_entry_cases:
  assumes "update_feature_dictionary hc gc d w' parts = Inr d1"
  shows "lookup_entry d1 w k f = lookup_entry d w k f
         \<or> lookup_entry d1 w k f = Some None
         \<or> (\<exists>c. lookup_entry d1 w k f = Some (Some [c]))
         \<or> (\<exists>c cs. lookup_entry d w k f = Some (Some cs)
                    \<and> lookup_entry d1 w k f = Some (Some (append_new cs c)))"
proof -
  obtain k' f' ps where parts: "parts = k' # f' # ps"
    using assms by (rule update_ok_parts)
  show ?thesis
    using update_lookup[OF assms[unfolded parts], of w k f]
    by (auto simp: append_new_def split: sum.splits option.splits if_splits)
qed

lemma update_entry_other:
  assumes "update_feature_dictionary hc gc d w' parts = Inr d1"
      and "\<not> addressed w k f (w', parts)"
  shows "lookup_entry d1 w k f = lookup_entry d w k f"
proof -
  obtain k' f' ps where parts: "parts = k' # f' # ps"
    using assms(1) by (rule update_ok_parts)
  show ?thesis
    using update_lookup[OF assms(1)[unfolded parts], of w k f] assms(2)
    by (auto simp: addressed_def parts)
qed

lemma update_entry_config:
  assumes "update_feature_dictionary hc gc d w' parts = Inr d1"
      and "addressed w k f (w', parts)" and "gc parts = Inr (Some c)"
  shows "lookup_entry d1 w k f
         = Some (Some (append_new (case lookup_entry d w k f of Some (Some cs) \<Rightarrow> cs | _ \<Rightarrow> []) c))"
proof -
  obtain k' f' ps where parts: "parts = k' # f' # ps"
    using assms(1) by (rule update_ok_parts)
  show ?thesis
    using update_lookup[OF assms(1)[unfolded parts], of w k f] assms(2,3)
    by (auto simp: addressed_def parts)
qed

lemma update_calls_distinct:
  assumes "update_calls hc gc calls d0 = Inr d"
      and "\<forall>w k f cs. lookup_entry d0 w k f = Some (Some cs) \<longrightarrow> distinct cs"
  shows "\<forall>w k f cs. lookup_entry d w k f = Some (Some cs) \<longrightarrow> distinct cs"
  using assms
proof (induction calls arbitrary: d0)
  case Nil
  then show ?case by simp
next
  case (Cons call calls)
  obtain w' parts where call: "call = (w', parts)" by (cases call)
  obtain d1 where d1: "update_feature_dictionary hc gc d0 w' parts = Inr d1"
      and rest: "update_calls hc gc calls d1 = Inr d"
    using Cons.prems(1) unfolding call by (auto split: sum.splits)
  have "\<forall>w k f cs. lookup_entry d1 w k f = Some (Some cs) \<longrightarrow> distinct cs"
  proof (intro allI impI)
    fix w k f cs assume l: "lookup_entry d1 w k f = Some (Some cs)"
    from update_entry_cases[OF d1, of w k f] l Cons.prems(2)
    show "distinct cs" by (auto simp: distinct_append_new)
  qed
  then show ?case using Cons.IH[OF rest] by blast
qed

lemma update_calls_entry:
  assumes "update_calls hc gc calls d0 = Inr d"
      and "\<forall>call \<in> set calls. addressed w k f call \<longrightarrow> (\<exists>c. gc (snd call) = Inr (Some c))"
  shows "lookup_entry d w k f
         = (if configs_for gc w k f calls = [] then lookup_entry d0 w k f
            else Some (Some (foldl append_new
                    (case lookup_entry d0 w k f of Some (Some cs) \<Rightarrow> cs | _ \<Rightarrow> [])
                    (configs_for gc w k f calls))))"
  using assms
proof (induction calls arbitrary: d0)
  case Nil
  then show ?case by (simp add: configs_for_def)
next
  case (Cons call calls)
  obtain w' parts where call: "call = (w', parts)" by (cases call)
  obtain d1 where d1: "update_feature_dictionary hc gc d0 w' parts = Inr d1"
      and rest: "update_calls hc gc calls d1 = Inr d"
    using Cons.prems(1) unfolding call by (auto split: sum.splits)
  have ih: "lookup_entry d w k f
         = (if configs_for gc w k f calls = [] then lookup_entry d1 w k f
            else Some (Some (foldl append_new
                    (case lookup_entry d1 w k f of Some (Some cs) \<Rightarrow> cs | _ \<Rightarrow> [])
                    (configs_for gc w k f calls))))"
    using Cons.IH[OF rest] Cons.prems(2) by simp
  show ?case
  proof (cases "addressed w k f (w', parts)")
    case False
    then have "configs_for gc w k f (call # calls) = configs_for gc w k f calls"
      by (simp add: configs_for_def call)
    then show ?thesis using ih update_entry_other[OF d1 False] by simp
  next
    case True
    then obtain c where c: "gc parts = Inr (Some c)"
      using Cons.prems(2) call by auto
    have cf: "configs_for gc w k f (call # calls) = c # configs_for gc w k f calls"
      using True c by (simp add: configs_for_def call)
    show ?thesis
      using ih update_entry_config[OF d1 True c] unfolding cf by simp
  qed
qed

text \<open>
  An entry that loses its accumulated list: a call whose parts carry no parameters stores
  \<^verbatim>\<open>None\<close> over whatever list was there.
\<close>

theorem parameter_sets_lost_counterexample:
  "entry_after small_catalog raw_config
     [(5, [''x'', ''quantile'', ''q_0.1''])] 5 ''x'' ''quantile'' = Some (Some [[''q_0.1'']])
   \<and> entry_after small_catalog raw_config
     [(5, [''x'', ''quantile'', ''q_0.1'']), (5, [''x'', ''quantile''])] 5 ''x'' ''quantile''
       = Some None"
  by (simp add: entry_after_def update_feature_dictionary_def small_catalog_def raw_config_def
        lookup_entry_def Let_def)

text \<open>
  C6, as the code has it. After any sequence of calls that does not raise, starting from the
  empty dictionary, no stored parameter list holds a duplicate. For a calculator entry that
  is addressed by at least one call, and only by calls that carry a parameter set, the
  stored list is exactly the distinct parameter sets of those calls in order of first
  insertion: each once, none lost.
\<close>

theorem accumulated_parameter_sets:
  assumes "update_calls hc gc calls Map.empty = Inr d"
  shows "(\<forall>w k f cs. lookup_entry d w k f = Some (Some cs) \<longrightarrow> distinct cs)
       \<and> ((\<forall>call \<in> set calls. addressed w k f call \<longrightarrow> (\<exists>c. gc (snd call) = Inr (Some c)))
            \<and> (\<exists>call \<in> set calls. addressed w k f call)
          \<longrightarrow> lookup_entry d w k f = Some (Some (unique_first (configs_for gc w k f calls)))
              \<and> set (unique_first (configs_for gc w k f calls)) = set (configs_for gc w k f calls))"
proof (intro conjI impI)
  show "\<forall>w k f cs. lookup_entry d w k f = Some (Some cs) \<longrightarrow> distinct cs"
    using update_calls_distinct[OF assms] by (simp add: lookup_entry_def)
next
  assume a: "(\<forall>call \<in> set calls. addressed w k f call \<longrightarrow> (\<exists>c. gc (snd call) = Inr (Some c)))
            \<and> (\<exists>call \<in> set calls. addressed w k f call)"
  then obtain call c where "call \<in> set calls" "addressed w k f call" "gc (snd call) = Inr (Some c)"
    by blast
  then have "c \<in> set (configs_for gc w k f calls)"
    by (cases call) (auto simp: configs_for_def intro!: exI[of _ "fst call"] exI[of _ "snd call"])
  then have ne: "configs_for gc w k f calls \<noteq> []" by auto
  have "lookup_entry d w k f
        = Some (Some (foldl append_new (unique_first []) (configs_for gc w k f calls)))"
    using update_calls_entry[OF assms, of w k f] a ne
    by (simp add: lookup_entry_def unique_first_def)
  then show "lookup_entry d w k f = Some (Some (unique_first (configs_for gc w k f calls)))"
    by (simp only: foldl_append_new append_Nil)
next
  show "set (unique_first (configs_for gc w k f calls)) = set (configs_for gc w k f calls)"
    by (rule set_unique_first)
qed

theorem accumulated_parameter_sets_witness:
  "\<exists>d. update_calls small_catalog raw_config
          [(5, [''x'', ''quantile'', ''q_0.1'']), (5, [''x'', ''quantile'', ''q_0.9'']),
           (5, [''x'', ''mean'']), (5, [''x'', ''quantile'', ''q_0.1''])] Map.empty = Inr d
       \<and> lookup_entry d 5 ''x'' ''quantile'' = Some (Some [[''q_0.1''], [''q_0.9'']])"
proof -
  let ?calls = "[(5, [''x'', ''quantile'', ''q_0.1'']), (5, [''x'', ''quantile'', ''q_0.9'']),
                 (5, [''x'', ''mean'']), (5::int, [''x'', ''quantile'', ''q_0.1''])]"
  obtain d where run: "update_calls small_catalog raw_config ?calls Map.empty = Inr d"
    by (simp add: update_feature_dictionary_def small_catalog_def raw_config_def
          append_new_def Let_def)
  have h1: "\<forall>call \<in> set ?calls. addressed 5 ''x'' ''quantile'' call
              \<longrightarrow> (\<exists>c. raw_config (snd call) = Inr (Some c))"
    by (simp add: addressed_def raw_config_def)
  have h2: "\<exists>call \<in> set ?calls. addressed 5 ''x'' ''quantile'' call"
    by (simp add: addressed_def)
  have cf: "unique_first (configs_for raw_config 5 ''x'' ''quantile'' ?calls)
            = [[''q_0.1''], [''q_0.9'']]"
    by (simp add: configs_for_def addressed_def raw_config_def unique_first_def)
  have "lookup_entry d 5 ''x'' ''quantile''
        = Some (Some (unique_first (configs_for raw_config 5 ''x'' ''quantile'' ?calls)))"
    using accumulated_parameter_sets[OF run, of 5 "''x''" "''quantile''"] h1 h2 by blast
  then show ?thesis using run cf by simp
qed

section \<open>Stage-1 completeness filtering: what is dropped and what is kept\<close>

lemma set_target_list:
  "set (target_list rows) = {row_kind r | r. r \<in> set rows \<and> row_value r = None}"
  by (auto simp: target_list_def set_unique_first)

lemma drop_incomplete_eq:
  "drop_incomplete rows
   = filter (\<lambda>r. \<forall>r' \<in> set rows. row_kind r' = row_kind r \<longrightarrow> row_value r' \<noteq> None) rows"
  unfolding drop_incomplete_def set_target_list
  by (rule filter_cong) auto

lemma stage1_dask_eq:
  "stage1_dask w rows
   = filter (\<lambda>x. \<forall>r' \<in> set rows. clean_feature_timeseries_name (row_kind r') w = column_kind x
                    \<longrightarrow> row_value r' \<noteq> None)
       (map (flatten_row w) rows)"
proof -
  have T: "set (map column_kind (filter (\<lambda>x. column_value x = None) (map (flatten_row w) rows)))
           = {clean_feature_timeseries_name (row_kind r) w | r. r \<in> set rows \<and> row_value r = None}"
    by (auto simp: filter_map o_def flatten_row_def)
  show ?thesis
    unfolding stage1_dask_def Let_def set_unique_first T
    by (rule filter_cong) auto
qed

text \<open>
  What holds of the two branches. When some stage-1 row of a feature name has a missing
  value, every stage-1 row of that name, for every id and window, is absent from the rows
  that go on to the derived series, in the pandas branch and in the dask branch. In the
  pandas branch a name with no missing value keeps all its rows, in order: the branch
  returns exactly the renamed rows of the complete names. The dask branch filters after
  renaming, so the rows it keeps are those of the renamed names that have no missing value.
\<close>

lemma stage1_filter_facts:
  "(\<forall>r \<in> set rows. (\<exists>r' \<in> set rows. row_kind r' = row_kind r \<and> row_value r' = None)
       \<longrightarrow> r \<notin> set (drop_incomplete rows) \<and> flatten_row w r \<notin> set (stage1_dask w rows))
   \<and> (\<forall>k. (\<forall>r \<in> set rows. row_kind r = k \<longrightarrow> row_value r \<noteq> None)
       \<longrightarrow> filter (\<lambda>r. row_kind r = k) (drop_incomplete rows) = filter (\<lambda>r. row_kind r = k) rows)
   \<and> stage1_pandas w rows
       = map (flatten_row w)
           (filter (\<lambda>r. \<forall>r' \<in> set rows. row_kind r' = row_kind r \<longrightarrow> row_value r' \<noteq> None) rows)
   \<and> (\<forall>k. (\<forall>r \<in> set rows. clean_feature_timeseries_name (row_kind r) w = k
                 \<longrightarrow> row_value r \<noteq> None)
       \<longrightarrow> filter (\<lambda>x. column_kind x = k) (stage1_dask w rows)
           = filter (\<lambda>x. column_kind x = k) (map (flatten_row w) rows))"
proof (intro conjI)
  show "\<forall>r \<in> set rows. (\<exists>r' \<in> set rows. row_kind r' = row_kind r \<and> row_value r' = None)
       \<longrightarrow> r \<notin> set (drop_incomplete rows) \<and> flatten_row w r \<notin> set (stage1_dask w rows)"
    unfolding drop_incomplete_eq stage1_dask_eq
    by (fastforce simp: flatten_row_def)
  show "\<forall>k. (\<forall>r \<in> set rows. row_kind r = k \<longrightarrow> row_value r \<noteq> None)
       \<longrightarrow> filter (\<lambda>r. row_kind r = k) (drop_incomplete rows) = filter (\<lambda>r. row_kind r = k) rows"
    unfolding drop_incomplete_eq
    by (auto intro!: filter_cong)
  show "stage1_pandas w rows
       = map (flatten_row w)
           (filter (\<lambda>r. \<forall>r' \<in> set rows. row_kind r' = row_kind r \<longrightarrow> row_value r' \<noteq> None) rows)"
    by (simp only: stage1_pandas_def drop_incomplete_eq)
  show "\<forall>k. (\<forall>r \<in> set rows. clean_feature_timeseries_name (row_kind r) w = k
                 \<longrightarrow> row_value r \<noteq> None)
       \<longrightarrow> filter (\<lambda>x. column_kind x = k) (stage1_dask w rows)
           = filter (\<lambda>x. column_kind x = k) (map (flatten_row w) rows)"
    unfolding stage1_dask_eq
    by (auto intro!: filter_cong)
qed

lemma stage1_filter_example:
  "\<lparr>row_id = (2, 0), row_kind = ''a__skew'', row_value = Some 7\<rparr> \<in> set example_rows
   \<and> \<lparr>row_id = (2, 0), row_kind = ''a__skew'', row_value = Some 7\<rparr>
        \<notin> set (drop_incomplete example_rows)
   \<and> flatten_row 5 \<lparr>row_id = (2, 0), row_kind = ''a__skew'', row_value = Some 7\<rparr>
        \<notin> set (stage1_dask 5 example_rows)
   \<and> filter (\<lambda>r. row_kind r = ''a__mean'') (drop_incomplete example_rows)
       = [\<lparr>row_id = (1, 0), row_kind = ''a__mean'', row_value = Some 3\<rparr>,
          \<lparr>row_id = (1, 1), row_kind = ''a__mean'', row_value = Some 4\<rparr>,
          \<lparr>row_id = (2, 0), row_kind = ''a__mean'', row_value = Some 5\<rparr>,
          \<lparr>row_id = (2, 1), row_kind = ''a__mean'', row_value = Some 6\<rparr>]"
proof -
  let ?r = "\<lparr>row_id = (2::nat, 0::nat), row_kind = ''a__skew'', row_value = Some (7::int)\<rparr>"
  note t = stage1_filter_facts[of example_rows 5]
  have m: "?r \<in> set example_rows" by (simp add: example_rows_def)
  have "\<exists>r' \<in> set example_rows. row_kind r' = row_kind ?r \<and> row_value r' = None"
    by (simp add: example_rows_def)
  with t m have a: "?r \<notin> set (drop_incomplete example_rows)
                   \<and> flatten_row 5 ?r \<notin> set (stage1_dask 5 example_rows)"
    by blast
  have "\<forall>r \<in> set example_rows. row_kind r = ''a__mean'' \<longrightarrow> row_value r \<noteq> None"
    by (simp add: example_rows_def)
  with t have "filter (\<lambda>r. row_kind r = ''a__mean'') (drop_incomplete example_rows)
               = filter (\<lambda>r. row_kind r = ''a__mean'') example_rows"
    by blast
  then show ?thesis using m a by (simp add: example_rows_def)
qed

text \<open>
  C3. A feature name with no missing value is to keep all its rows. The dask branch does not
  always do so: it renames before it filters, and the encoder writes the two names
  \<^verbatim>\<open>a__b__c__skewness\<close> and \<^verbatim>\<open>a__b|c__skewness\<close> as the same text. On the rows below the
  second name has a value in both windows and the first has a missing one; the dask branch
  returns no row at all, while the pandas branch, which filters before it renames, keeps
  both rows of the second name.
\<close>

theorem stage1_dask_loses_complete_name:
  "map row_value (filter (\<lambda>r. row_kind r = ''a__b|c__skewness'') colliding_rows)
     = [Some 1, Some 2]
   \<and> clean_feature_timeseries_name ''a__b__c__skewness'' 5
       = clean_feature_timeseries_name ''a__b|c__skewness'' 5
   \<and> stage1_dask 5 colliding_rows = []
   \<and> stage1_pandas 5 colliding_rows
       = [\<lparr>column_id = 1, column_sort = 0, column_kind = ''a||b|c|skewness@window_5'',
           column_value = Some 1\<rparr>,
          \<lparr>column_id = 1, column_sort = 1, column_kind = ''a||b|c|skewness@window_5'',
           column_value = Some 2\<rparr>]"
  by code_simp

section \<open>Split sizes that the windowed view rejects\<close>

lemma shortest_series_le:
  assumes "s \<in> set ts"
  shows "\<exists>l. shortest_series ts = Some l \<and> l \<le> length (snd s)"
proof (cases ts)
  case Nil
  with assms show ?thesis by simp
next
  case (Cons t ts')
  let ?f = "\<lambda>s :: ('a \<times> string) \<times> 'b list. length (snd s)"
  have "shortest_series ts = Some (fold min (map ?f ts') (?f t))"
    unfolding Cons by (simp add: shortest_series_def)
  moreover have "fold min (map ?f ts') (?f t) = Min (set (?f t # map ?f ts'))"
    by (rule Min.set_eq_fold[symmetric])
  moreover have "Min (set (?f t # map ?f ts')) \<le> length (snd s)"
    using assms unfolding Cons by (intro Min_le) auto
  ultimately show ?thesis by simp
qed

text \<open>
  C2. Constructing the windowed view fails with the value-domain error, at construction,
  for a split size that is NaN, zero or negative, not an integer, or larger than the length
  of some series of the dataset (so larger than the shortest one); in particular for
  0, -20, 1.5 and \<open>L + 1\<close> where \<open>L\<close> is the length of a series present.
\<close>

theorem split_size_rejected:
  "IterableSplitTsData ts NaN = Inl (ValueError InvalidSplitSize)
   \<and> (q \<le> 0 \<or> of_int \<lfloor>q\<rfloor> \<noteq> q \<or> (\<exists>s \<in> set ts. of_nat (length (snd s)) < q)
        \<longrightarrow> IterableSplitTsData ts (Number q) = Inl (ValueError InvalidSplitSize))
   \<and> (s \<in> set ts
        \<longrightarrow> IterableSplitTsData ts (Number 0) = Inl (ValueError InvalidSplitSize)
          \<and> IterableSplitTsData ts (Number (- 20)) = Inl (ValueError InvalidSplitSize)
          \<and> IterableSplitTsData ts (Number (3 / 2)) = Inl (ValueError InvalidSplitSize)
          \<and> IterableSplitTsData ts (Number (of_nat (length (snd s)) + 1))
              = Inl (ValueError InvalidSplitSize))"
proof -
  have gen: "IterableSplitTsData ts (Number q) = Inl (ValueError InvalidSplitSize)"
    if "q \<le> 0 \<or> of_int \<lfloor>q\<rfloor> \<noteq> q \<or> (\<exists>s \<in> set ts. of_nat (length (snd s)) < q)" for q
  proof (cases "q \<le> 0 \<or> of_int \<lfloor>q\<rfloor> \<noteq> q")
    case True
    then show ?thesis by (auto simp: IterableSplitTsData_def)
  next
    case False
    with that obtain s where s: "s \<in> set ts" "of_nat (length (snd s)) < q" by blast
    obtain l where l: "shortest_series ts = Some l" "l \<le> length (snd s)"
      using shortest_series_le[OF s(1)] by blast
    have "(of_nat l :: rat) \<le> of_nat (length (snd s))" using l(2) by simp
    then have "of_nat l < q" using s(2) by simp
    then show ?thesis using l(1) by (simp add: IterableSplitTsData_def)
  qed
  have f: "of_int \<lfloor>3 / 2 :: rat\<rfloor> \<noteq> (3 / 2 :: rat)"
  proof -
    have "\<lfloor>3 / 2 :: rat\<rfloor> = 1" by (simp add: floor_unique)
    then show ?thesis by simp
  qed
  show ?thesis
  proof (intro conjI impI)
    show "IterableSplitTsData ts NaN = Inl (ValueError InvalidSplitSize)"
      by (simp add: IterableSplitTsData_def)
    show "IterableSplitTsData ts (Number q) = Inl (ValueError InvalidSplitSize)"
      if "q \<le> 0 \<or> of_int \<lfloor>q\<rfloor> \<noteq> q \<or> (\<exists>s \<in> set ts. of_nat (length (snd s)) < q)"
      using that by (rule gen)
    show "IterableSplitTsData ts (Number 0) = Inl (ValueError InvalidSplitSize)"
      by (rule gen) simp
    show "IterableSplitTsData ts (Number (- 20)) = Inl (ValueError InvalidSplitSize)"
      by (rule gen) simp
    show "IterableSplitTsData ts (Number (3 / 2)) = Inl (ValueError InvalidSplitSize)"
      using f by (intro gen) blast
    show "IterableSplitTsData ts (Number (of_nat (length (snd s)) + 1))
              = Inl (ValueError InvalidSplitSize)" if "s \<in> set ts"
      using that by (intro gen disjI2 bexI[of _ s]) simp_all
  qed
qed

theorem split_size_rejected_witness:
  "((1, ''a''), [1, 2, 3]) \<in> set example_ts
   \<and> IterableSplitTsData example_ts (Number 0) = Inl (ValueError InvalidSplitSize)
   \<and> IterableSplitTsData example_ts (Number (- 20)) = Inl (ValueError InvalidSplitSize)
   \<and> IterableSplitTsData example_ts (Number (3 / 2)) = Inl (ValueError InvalidSplitSize)
   \<and> IterableSplitTsData example_ts (Number 4) = Inl (ValueError InvalidSplitSize)"
proof -
  have m: "((1, ''a''), [1, 2, 3]) \<in> set example_ts" by (simp add: example_ts_def)
  show ?thesis
    using m split_size_rejected[of example_ts _ "((1, ''a''), [1, 2, 3])"]
    by simp
qed

end
